theory Spec2Isabelle
  imports Main "HOL-Library.Word"
begin

section \<open>JavaScript strings\<close>

text \<open>
  A JavaScript string is a sequence of UTF-16 code units, and \<open>length\<close>, \<open>startsWith\<close>,
  \<open>endsWith\<close>, \<open>slice\<close>, \<open>indexOf\<close> and \<open>===\<close> all work on code units. The elements
  of a \<open>Uint8Array\<close> are bytes.
\<close>

type_synonym code_unit = "16 word"
type_synonym jsstring = "code_unit list"
type_synonym byte = "8 word"

text \<open>String literals of the source are written \<open>js ''...''\<close>.\<close>

definition js :: "string \<Rightarrow> jsstring" where
  "js s = map of_char s"

text \<open>\<open>s.startsWith(p)\<close> and \<open>s.endsWith(p)\<close>.\<close>

definition startsWith :: "'a list \<Rightarrow> 'a list \<Rightarrow> bool" where
  "startsWith s p = (take (length p) s = p)"

definition endsWith :: "'a list \<Rightarrow> 'a list \<Rightarrow> bool" where
  "endsWith s p = (length p \<le> length s \<and> drop (length s - length p) s = p)"

text \<open>\<open>s.indexOf(p)\<close>: the position of the first occurrence, \<open>None\<close> for JavaScript's -1.\<close>

fun indexOf :: "'a list \<Rightarrow> 'a list \<Rightarrow> nat option" where
  "indexOf [] p = (if p = [] then Some 0 else None)"
| "indexOf (c # s) p =
     (if startsWith (c # s) p then Some 0 else map_option Suc (indexOf s p))"

definition contains :: "'a list \<Rightarrow> 'a list \<Rightarrow> bool" where
  "contains s p = (indexOf s p \<noteq> None)"

text \<open>
  \<open>s.replace(p, r)\<close> with a string pattern replaces the first occurrence of \<open>p\<close> only.
  The replacement text is a template: \<open>$$\<close> stands for a dollar sign, \<open>$&\<close> for the
  matched text, \<open>$`\<close> for the text before the match and \<open>$'\<close> for the text after it
  (a string pattern has no capture groups, so \<open>$1\<close> and the like stay as they are).
\<close>

fun getSubstitution :: "jsstring \<Rightarrow> jsstring \<Rightarrow> jsstring \<Rightarrow> jsstring \<Rightarrow> jsstring" where
  "getSubstitution m b a [] = []"
| "getSubstitution m b a [c] = [c]"
| "getSubstitution m b a (c # d # r) =
     (if c = 0x24 then
        (if d = 0x24 then 0x24 # getSubstitution m b a r
         else if d = 0x26 then m @ getSubstitution m b a r
         else if d = 0x60 then b @ getSubstitution m b a r
         else if d = 0x27 then a @ getSubstitution m b a r
         else c # getSubstitution m b a (d # r))
      else c # getSubstitution m b a (d # r))"

definition replace :: "jsstring \<Rightarrow> jsstring \<Rightarrow> jsstring \<Rightarrow> jsstring" where
  "replace s p r =
     (case indexOf s p of
        None \<Rightarrow> s
      | Some i \<Rightarrow>
          (let preceding = take i s; following = drop (i + length p) s
           in preceding @ getSubstitution p preceding following r @ following))"

text \<open>\<open>s.split(sep)\<close> for a separator of one code unit.\<close>

fun split :: "jsstring \<Rightarrow> code_unit \<Rightarrow> jsstring list" where
  "split [] sep = [[]]"
| "split (c # s) sep =
     (if c = sep then [] # split s sep
      else (case split s sep of [] \<Rightarrow> [[c]] | x # xs \<Rightarrow> (c # x) # xs))"

section \<open>Settings and result types (types.ts)\<close>

record GitSyncSettings =
  githubUsername :: jsstring
  githubToken :: jsstring
  repositoryName :: jsstring
  branch :: jsstring
  autoSync :: bool
  autoSyncInterval :: nat
  lastSyncTime :: nat
  excludedFolders :: "jsstring list"
  excludedFiles :: "jsstring list"
  commitMessage :: jsstring

definition DEFAULT_SETTINGS :: GitSyncSettings where
  "DEFAULT_SETTINGS =
     \<lparr> githubUsername = [], githubToken = [], repositoryName = [], branch = js ''main'',
       autoSync = False, autoSyncInterval = 30, lastSyncTime = 0,
       excludedFolders = [js ''{{configDir}}/plugins'', js ''{{configDir}}/themes'', js ''.trash''],
       excludedFiles = [js ''.DS_Store'', js ''Thumbs.db''],
       commitMessage = js ''Obsidian sync: {{date}}'' \<rparr>"

record SyncResult =
  success :: bool
  message :: jsstring
  filesUploaded :: nat
  filesDownloaded :: nat
  filesDeleted :: nat

section \<open>The commit message (SyncService.getCommitMessage)\<close>

text \<open>
  \<open>new Date()\<close> is the host's clock. A date is taken as the UTC fields that
  \<open>toISOString\<close> prints: \<open>YYYY-MM-DDTHH:mm:ss.sssZ\<close>, the year with a sign and six
  digits when it is outside 0..9999.
\<close>

record date =
  year :: int
  month :: nat
  day :: nat
  hours :: nat
  minutes :: nat
  seconds :: nat
  milliseconds :: nat

definition digit :: "nat \<Rightarrow> code_unit" where
  "digit n = of_nat (48 + n mod 10)"

fun pad :: "nat \<Rightarrow> nat \<Rightarrow> jsstring" where
  "pad 0 n = []"
| "pad (Suc k) n = pad k (n div 10) @ [digit n]"

definition yearString :: "int \<Rightarrow> jsstring" where
  "yearString y =
     (if 0 \<le> y \<and> y \<le> 9999 then pad 4 (nat y)
      else (if y < 0 then 0x2D else 0x2B) # pad 6 (nat \<bar>y\<bar>))"

definition toISOString :: "date \<Rightarrow> jsstring" where
  "toISOString d =
     yearString (year d) @ js ''-'' @ pad 2 (month d) @ js ''-'' @ pad 2 (day d) @ js ''T''
     @ pad 2 (hours d) @ js '':'' @ pad 2 (minutes d) @ js '':'' @ pad 2 (seconds d)
     @ js ''.'' @ pad 3 (milliseconds d) @ js ''Z''"

text \<open>
  \<^verbatim>\<open>const dateStr = now.toISOString().replace('T', ' ').split('.')[0] ?? '';\<close>
  \<^verbatim>\<open>return this.settings.commitMessage.replace('{{date}}', dateStr);\<close>
\<close>

definition dateStr :: "date \<Rightarrow> jsstring" where
  "dateStr now =
     (case split (replace (toISOString now) (js ''T'') (js '' '')) 0x2E of
        [] \<Rightarrow> []
      | x # _ \<Rightarrow> x)"

definition getCommitMessage :: "GitSyncSettings \<Rightarrow> date \<Rightarrow> jsstring" where
  "getCommitMessage settings now =
     replace (commitMessage settings) (js ''{{date}}'') (dateStr now)"

text \<open>
  What the specification calls a parseable timestamp: text of the form
  \<open>YYYY-MM-DD HH:mm:ss\<close> whose fields are decimal numbers in range. The parser returns
  the six fields.
\<close>

definition digitVal :: "code_unit \<Rightarrow> nat option" where
  "digitVal c = (if 48 \<le> c \<and> c \<le> 57 then Some (unat c - 48) else None)"

fun parseNat :: "nat \<Rightarrow> jsstring \<Rightarrow> nat option" where
  "parseNat acc [] = Some acc"
| "parseNat acc (c # s) =
     (case digitVal c of None \<Rightarrow> None | Some v \<Rightarrow> parseNat (10 * acc + v) s)"

definition parseTimestamp :: "jsstring \<Rightarrow> (nat \<times> nat \<times> nat \<times> nat \<times> nat \<times> nat) option" where
  "parseTimestamp s =
     (if length s = 19 \<and> s ! 4 = 0x2D \<and> s ! 7 = 0x2D \<and> s ! 10 = 0x20
         \<and> s ! 13 = 0x3A \<and> s ! 16 = 0x3A
      then (case (parseNat 0 (take 4 s), parseNat 0 (take 2 (drop 5 s)),
                  parseNat 0 (take 2 (drop 8 s)), parseNat 0 (take 2 (drop 11 s)),
                  parseNat 0 (take 2 (drop 14 s)), parseNat 0 (take 2 (drop 17 s))) of
              (Some y, Some mo, Some d, Some h, Some mi, Some se) \<Rightarrow>
                (if 1 \<le> mo \<and> mo \<le> 12 \<and> 1 \<le> d \<and> d \<le> 31 \<and> h < 24 \<and> mi < 60 \<and> se < 60
                 then Some (y, mo, d, h, mi, se) else None)
            | _ \<Rightarrow> None)
      else None)"

definition validDate :: "date \<Rightarrow> bool" where
  "validDate d =
     (0 \<le> year d \<and> year d \<le> 9999 \<and> 1 \<le> month d \<and> month d \<le> 12 \<and> 1 \<le> day d \<and> day d \<le> 31
      \<and> hours d < 24 \<and> minutes d < 60 \<and> seconds d < 60 \<and> milliseconds d < 1000)"

text \<open>The text \<open>YYYY-MM-DD HH:mm:ss\<close> of a date, and a date to try things on.\<close>

definition stamp :: "date \<Rightarrow> jsstring" where
  "stamp d = pad 4 (nat (year d)) @ js ''-'' @ pad 2 (month d) @ js ''-'' @ pad 2 (day d) @ js '' ''
     @ pad 2 (hours d) @ js '':'' @ pad 2 (minutes d) @ js '':'' @ pad 2 (seconds d)"

definition exampleDate :: date where
  "exampleDate = \<lparr> year = 2024, month = 1, day = 15, hours = 10, minutes = 30, seconds = 0,
     milliseconds = 0 \<rparr>"

section \<open>Base64: btoa and atob\<close>

text \<open>
  \<open>btoa\<close> encodes a string of code units up to 0xFF and throws on any other;
  \<open>atob\<close> is the forgiving base64 decoder: it drops ASCII whitespace, takes one or two
  padding signs off a text whose length is a multiple of four, and throws on a length of
  1 modulo 4 or a character outside the alphabet.
\<close>

datatype exn = Error jsstring | TypeError | InvalidCharacterError | URIError | NonError

definition b64alphabet :: jsstring where
  "b64alphabet = js ''ABCDEFGHIJKLMNOPQRSTUVWXYZabcdefghijklmnopqrstuvwxyz0123456789+/''"

definition b64char :: "nat \<Rightarrow> code_unit" where
  "b64char n = b64alphabet ! n"

fun position :: "'a \<Rightarrow> 'a list \<Rightarrow> nat option" where
  "position c [] = None"
| "position c (x # xs) = (if c = x then Some 0 else map_option Suc (position c xs))"

definition b64index :: "code_unit \<Rightarrow> nat option" where
  "b64index c = position c b64alphabet"

fun btoaGroups :: "nat list \<Rightarrow> jsstring" where
  "btoaGroups (a # b # c # r) =
     [b64char (a div 4), b64char (a mod 4 * 16 + b div 16),
      b64char (b mod 16 * 4 + c div 64), b64char (c mod 64)] @ btoaGroups r"
| "btoaGroups [a, b] =
     [b64char (a div 4), b64char (a mod 4 * 16 + b div 16), b64char (b mod 16 * 4), 0x3D]"
| "btoaGroups [a] = [b64char (a div 4), b64char (a mod 4 * 16), 0x3D, 0x3D]"
| "btoaGroups [] = []"

definition btoa :: "jsstring \<Rightarrow> exn + jsstring" where
  "btoa s =
     (if list_ex (\<lambda>c. 0xFF < c) s then Inl InvalidCharacterError
      else Inr (btoaGroups (map unat s)))"

definition isAsciiWhitespace :: "code_unit \<Rightarrow> bool" where
  "isAsciiWhitespace c = (c = 0x09 \<or> c = 0x0A \<or> c = 0x0C \<or> c = 0x0D \<or> c = 0x20)"

definition stripPadding :: "jsstring \<Rightarrow> jsstring" where
  "stripPadding d =
     (if length d mod 4 = 0 then
        (if endsWith d (js ''=='') then butlast (butlast d)
         else if endsWith d (js ''='') then butlast d
         else d)
      else d)"

fun decodeGroups :: "nat list \<Rightarrow> nat list" where
  "decodeGroups (s1 # s2 # s3 # s4 # r) =
     [s1 * 4 + s2 div 16, s2 mod 16 * 16 + s3 div 4, s3 mod 4 * 64 + s4] @ decodeGroups r"
| "decodeGroups [s1, s2, s3] = [s1 * 4 + s2 div 16, s2 mod 16 * 16 + s3 div 4]"
| "decodeGroups [s1, s2] = [s1 * 4 + s2 div 16]"
| "decodeGroups s = []"

definition atob :: "jsstring \<Rightarrow> exn + jsstring" where
  "atob data =
     (let d = stripPadding (filter (\<lambda>c. \<not> isAsciiWhitespace c) data)
      in if length d mod 4 = 1 then Inl InvalidCharacterError
         else (case those (map b64index d) of
                 None \<Rightarrow> Inl InvalidCharacterError
               | Some sextets \<Rightarrow> Inr (map of_nat (decodeGroups sextets))))"

text \<open>\<open>String.fromCharCode\<close> of every byte, and \<open>charCodeAt\<close> of every code unit stored
  into a \<open>Uint8Array\<close> (which keeps the low eight bits).\<close>

definition fromCharCodes :: "byte list \<Rightarrow> jsstring" where
  "fromCharCodes bytes = map ucast bytes"

definition charCodes :: "jsstring \<Rightarrow> byte list" where
  "charCodes binary = map ucast binary"

section \<open>JSON values and exceptions\<close>

datatype json =
    JNull
  | JBool bool
  | JNum int
  | JStr jsstring
  | JArr "json list"
  | JObj "(string \<times> json) list"

text \<open>
  Reading a property: \<open>null.k\<close> throws a TypeError, an object gives the member or
  \<open>undefined\<close> (here \<open>None\<close>), any other value has none of the properties the code reads.
\<close>

definition getProp :: "json \<Rightarrow> string \<Rightarrow> exn + json option" where
  "getProp v k =
     (case v of
        JNull \<Rightarrow> Inl TypeError
      | JObj members \<Rightarrow> Inr (map_of members k)
      | _ \<Rightarrow> Inr None)"

text \<open>Reading a property of the result of another read: \<open>undefined.k\<close> throws too.\<close>

definition getProp2 :: "json \<Rightarrow> string \<Rightarrow> string \<Rightarrow> exn + json option" where
  "getProp2 v k1 k2 =
     (case getProp v k1 of
        Inl e \<Rightarrow> Inl e
      | Inr None \<Rightarrow> Inl TypeError
      | Inr (Some u) \<Rightarrow> getProp u k2)"

text \<open>
  The source declares the fields it reads from a response as strings (\<open>as { sha: string }\<close>).
  A field that is absent, \<open>null\<close> or not a string is read as absent.
\<close>

definition asString :: "json option \<Rightarrow> jsstring option" where
  "asString v = (case v of Some (JStr s) \<Rightarrow> Some s | _ \<Rightarrow> None)"

text \<open>\<open>!x\<close> for a string or null: null and the empty string are falsy.\<close>

definition falsy :: "jsstring option \<Rightarrow> bool" where
  "falsy v = (v = None \<or> v = Some [])"

text \<open>
  \<open>error instanceof Error ? error.message : 'Unknown error'\<close>. The message text of the
  engine's own errors is not fixed by the language; their names stand for it.
\<close>

definition errorMessage :: "exn \<Rightarrow> jsstring" where
  "errorMessage e =
     (case e of
        Error m \<Rightarrow> m
      | TypeError \<Rightarrow> js ''TypeError''
      | InvalidCharacterError \<Rightarrow> js ''InvalidCharacterError''
      | URIError \<Rightarrow> js ''URIError''
      | NonError \<Rightarrow> js ''Unknown error'')"

fun decimal :: "nat \<Rightarrow> jsstring" where
  "decimal n = (if n < 10 then [digit n] else decimal (n div 10) @ [digit n])"

section \<open>The host: HTTP, the vault, the clock\<close>

text \<open>
  A URL is kept as the resource it names under the repository's base URL
  \<open>https://api.github.com/repos/{username}/{repo}\<close>, with the parameters the source
  puts into it: the commit id, the tree id, and for \<open>contents\<close> the path as
  \<open>encodeURIComponent\<close> has written it, with the \<open>ref\<close> parameter if there is one.
\<close>

datatype resource =
    Repo
  | UserRepos
  | RefHead jsstring
  | Refs
  | CommitOf jsstring
  | Commits
  | TreeRecursive jsstring
  | Trees
  | Blobs
  | Contents jsstring "jsstring option"

datatype http_method = GET | POST | PUT | PATCH | DELETE

record request =
  owner :: jsstring
  repository :: jsstring
  bearer :: jsstring
  resource :: resource
  verb :: http_method
  body :: "json option"

text \<open>
  \<open>requestUrl\<close> with \<open>throw: false\<close> either rejects (no network, or a body that is not
  JSON) or gives a status and the parsed body.
\<close>

datatype reply = Rejected exn | Response nat json

record TFile =
  path :: jsstring
  name :: jsstring
  extension :: jsstring

datatype abstract_file = IsFile TFile | IsFolder

datatype vault_call =
    Read TFile
  | ReadBinary TFile
  | Modify TFile jsstring
  | Create jsstring jsstring
  | ModifyBinary TFile "byte list"
  | CreateBinary jsstring "byte list"
  | CreateFolder jsstring

datatype event = Http request | Vault vault_call | Notice jsstring

text \<open>
  The host answers every call; an answer may depend on everything that happened before
  (the events so far). \<open>getFiles\<close> and \<open>getAbstractFileByPath\<close> read the vault's
  in-memory index and are not awaited. \<open>normalizePath\<close> is Obsidian's, and
  \<open>textDecode\<close> is \<open>new TextDecoder().decode\<close>.
\<close>

record host =
  configDir :: jsstring
  normalizePath :: "jsstring \<Rightarrow> jsstring"
  textDecode :: "byte list \<Rightarrow> jsstring"
  requestUrl :: "event list \<Rightarrow> request \<Rightarrow> reply"
  getFiles :: "event list \<Rightarrow> TFile list"
  getAbstractFileByPath :: "event list \<Rightarrow> jsstring \<Rightarrow> abstract_file option"
  vaultRead :: "event list \<Rightarrow> TFile \<Rightarrow> exn + jsstring"
  vaultReadBinary :: "event list \<Rightarrow> TFile \<Rightarrow> exn + byte list"
  vaultWrite :: "event list \<Rightarrow> vault_call \<Rightarrow> exn option"
  clock :: "event list \<Rightarrow> date"

section \<open>Asynchronous functions\<close>

text \<open>
  An \<open>async\<close> function takes the events so far and gives back its result (a value, or
  the exception it throws) with the events extended by its own.
\<close>

type_synonym 'a io = "event list \<Rightarrow> (exn + 'a) \<times> event list"

definition resolve :: "'a \<Rightarrow> 'a io" where
  "resolve x = (\<lambda>w. (Inr x, w))"

definition reject :: "exn \<Rightarrow> 'a io" where
  "reject e = (\<lambda>w. (Inl e, w))"

definition await :: "'a io \<Rightarrow> ('a \<Rightarrow> 'b io) \<Rightarrow> 'b io" where
  "await m f = (\<lambda>w. case m w of (Inl e, w') \<Rightarrow> (Inl e, w') | (Inr x, w') \<Rightarrow> f x w')"

definition tryCatch :: "'a io \<Rightarrow> (exn \<Rightarrow> 'a io) \<Rightarrow> 'a io" where
  "tryCatch m handler = (\<lambda>w. case m w of (Inl e, w') \<Rightarrow> handler e w' | (Inr x, w') \<Rightarrow> (Inr x, w'))"

text \<open>A value that may have thrown, as a step of an asynchronous function.\<close>

definition lift :: "exn + 'a \<Rightarrow> 'a io" where
  "lift r = (case r of Inl e \<Rightarrow> reject e | Inr x \<Rightarrow> resolve x)"

definition notice :: "jsstring \<Rightarrow> unit io" where
  "notice text = (\<lambda>w. (Inr (), w @ [Notice text]))"

definition vaultReadText :: "host \<Rightarrow> TFile \<Rightarrow> jsstring io" where
  "vaultReadText h file = (\<lambda>w. (vaultRead h w file, w @ [Vault (Read file)]))"

definition vaultReadBytes :: "host \<Rightarrow> TFile \<Rightarrow> byte list io" where
  "vaultReadBytes h file = (\<lambda>w. (vaultReadBinary h w file, w @ [Vault (ReadBinary file)]))"

definition vaultDo :: "host \<Rightarrow> vault_call \<Rightarrow> unit io" where
  "vaultDo h c =
     (\<lambda>w. ((case vaultWrite h w c of Some e \<Rightarrow> Inl e | None \<Rightarrow> Inr ()), w @ [Vault c]))"

section \<open>The remote repository client (github-api.ts)\<close>

record GitHubAPI =
  username :: jsstring
  token :: jsstring
  repo :: jsstring
  api_branch :: jsstring

record GitHubFile =
  gh_path :: jsstring
  gh_sha :: "jsstring option"
  gh_type :: jsstring

record GitHubTreeItem =
  item_path :: jsstring
  item_mode :: jsstring
  item_type :: jsstring
  item_sha :: "jsstring option"
  item_content :: "jsstring option"

text \<open>
  A member of a request body whose value may be \<open>undefined\<close>: \<open>JSON.stringify\<close> leaves
  it out. A template literal prints \<open>undefined\<close> as that word.
\<close>

definition optField :: "string \<Rightarrow> jsstring option \<Rightarrow> (string \<times> json) list" where
  "optField k v = (case v of None \<Rightarrow> [] | Some s \<Rightarrow> [(k, JStr s)])"

definition template :: "jsstring option \<Rightarrow> jsstring" where
  "template v = (case v of None \<Rightarrow> js ''undefined'' | Some s \<Rightarrow> s)"

text \<open>
  \<^verbatim>\<open>(response.json as { message?: string })?.message || `HTTP ${response.status}`\<close>
\<close>

definition apiErrorMessage :: "nat \<Rightarrow> json \<Rightarrow> jsstring" where
  "apiErrorMessage status j =
     (case j of
        JNull \<Rightarrow> js ''HTTP '' @ decimal status
      | _ \<Rightarrow>
          (case getProp j ''message'' of
             Inr v \<Rightarrow>
               (if falsy (asString v) then js ''HTTP '' @ decimal status
                else template (asString v))
           | Inl e \<Rightarrow> js ''HTTP '' @ decimal status))"

definition request :: "host \<Rightarrow> GitHubAPI \<Rightarrow> resource \<Rightarrow> http_method \<Rightarrow> json option \<Rightarrow> json io" where
  "request h api res m b =
     (\<lambda>w. let req = \<lparr> owner = username api, repository = repo api, bearer = token api,
                       resource = res, verb = m, body = b \<rparr>;
              w' = w @ [Http req]
          in case requestUrl h w req of
               Rejected e \<Rightarrow> (Inl e, w')
             | Response status j \<Rightarrow>
                 if status \<ge> 400
                 then (Inl (Error (js ''GitHub API Error: '' @ apiErrorMessage status j)), w')
                 else (Inr j, w'))"

definition verifyAccess :: "host \<Rightarrow> GitHubAPI \<Rightarrow> bool io" where
  "verifyAccess h api =
     tryCatch (await (request h api Repo GET None) (\<lambda>_. resolve True)) (\<lambda>_. resolve False)"

definition ensureRepository :: "host \<Rightarrow> GitHubAPI \<Rightarrow> bool io" where
  "ensureRepository h api =
     tryCatch (await (request h api Repo GET None) (\<lambda>_. resolve True))
       (\<lambda>_. tryCatch
          (await (request h api UserRepos POST
                    (Some (JObj [(''name'', JStr (repo api)), (''private'', JBool True),
                                 (''auto_init'', JBool True),
                                 (''description'', JStr (js ''Obsidian vault sync repository''))])))
             (\<lambda>_. resolve True))
          (\<lambda>createError. resolve False))"

definition getLatestCommitSha :: "host \<Rightarrow> GitHubAPI \<Rightarrow> jsstring option io" where
  "getLatestCommitSha h api =
     tryCatch
       (await (request h api (RefHead (api_branch api)) GET None)
          (\<lambda>response. await (lift (getProp2 response ''object'' ''sha''))
             (\<lambda>sha. resolve (asString sha))))
       (\<lambda>_. resolve None)"

definition getTreeSha :: "host \<Rightarrow> GitHubAPI \<Rightarrow> jsstring \<Rightarrow> jsstring option io" where
  "getTreeSha h api commitSha =
     await (request h api (CommitOf commitSha) GET None)
       (\<lambda>response. await (lift (getProp2 response ''tree'' ''sha''))
          (\<lambda>sha. resolve (asString sha)))"

text \<open>
  One entry of \<open>response.tree\<close>: kept when its \<open>type\<close> is \<open>'blob'\<close>. The entries are
  declared \<open>{ path: string; sha: string; type: string }\<close>; an entry that is \<open>null\<close>, or a
  blob whose path is not a string, ends in a TypeError.
\<close>

definition readEntry :: "json \<Rightarrow> exn + GitHubFile option" where
  "readEntry item =
     (case getProp item ''type'' of
        Inl e \<Rightarrow> Inl e
      | Inr t \<Rightarrow>
          (if asString t = Some (js ''blob'') then
             (case (getProp item ''path'', getProp item ''sha'') of
                (Inr p, Inr s) \<Rightarrow>
                  (case asString p of
                     None \<Rightarrow> Inl TypeError
                   | Some p' \<Rightarrow> Inr (Some \<lparr> gh_path = p', gh_sha = asString s, gh_type = js ''file'' \<rparr>))
              | _ \<Rightarrow> Inl TypeError)
           else Inr None))"

fun readEntries :: "json list \<Rightarrow> exn + GitHubFile list" where
  "readEntries [] = Inr []"
| "readEntries (item # items) =
     (case readEntry item of
        Inl e \<Rightarrow> Inl e
      | Inr f \<Rightarrow>
          (case readEntries items of
             Inl e \<Rightarrow> Inl e
           | Inr fs \<Rightarrow> Inr ((case f of None \<Rightarrow> [] | Some x \<Rightarrow> [x]) @ fs)))"

definition blobsOfTree :: "json \<Rightarrow> exn + GitHubFile list" where
  "blobsOfTree response =
     (case getProp response ''tree'' of
        Inl e \<Rightarrow> Inl e
      | Inr (Some (JArr items)) \<Rightarrow> readEntries items
      | Inr _ \<Rightarrow> Inl TypeError)"

definition getAllFiles :: "host \<Rightarrow> GitHubAPI \<Rightarrow> GitHubFile list io" where
  "getAllFiles h api =
     await (getLatestCommitSha h api)
       (\<lambda>commitSha.
          if falsy commitSha then resolve []
          else await (getTreeSha h api (template commitSha))
            (\<lambda>treeSha. await (request h api (TreeRecursive (template treeSha)) GET None)
               (\<lambda>response. lift (blobsOfTree response))))"

text \<open>\<open>TextEncoder.encode\<close>: UTF-8, an unpaired surrogate becoming U+FFFD.\<close>

definition utf8 :: "nat \<Rightarrow> byte list" where
  "utf8 cp =
     (if cp < 0x80 then [of_nat cp]
      else if cp < 0x800 then [of_nat (0xC0 + cp div 64), of_nat (0x80 + cp mod 64)]
      else if cp < 0x10000 then
        [of_nat (0xE0 + cp div 4096), of_nat (0x80 + cp div 64 mod 64), of_nat (0x80 + cp mod 64)]
      else
        [of_nat (0xF0 + cp div 262144), of_nat (0x80 + cp div 4096 mod 64),
         of_nat (0x80 + cp div 64 mod 64), of_nat (0x80 + cp mod 64)])"

definition isHighSurrogate :: "code_unit \<Rightarrow> bool" where
  "isHighSurrogate c = (0xD800 \<le> c \<and> c \<le> 0xDBFF)"

definition isLowSurrogate :: "code_unit \<Rightarrow> bool" where
  "isLowSurrogate c = (0xDC00 \<le> c \<and> c \<le> 0xDFFF)"

fun textEncode :: "jsstring \<Rightarrow> byte list" where
  "textEncode [] = []"
| "textEncode [c] =
     (if isHighSurrogate c \<or> isLowSurrogate c then utf8 0xFFFD else utf8 (unat c))"
| "textEncode (c # d # s) =
     (if isHighSurrogate c \<and> isLowSurrogate d
      then utf8 (0x10000 + (unat c - 0xD800) * 0x400 + (unat d - 0xDC00)) @ textEncode s
      else if isHighSurrogate c \<or> isLowSurrogate c then utf8 0xFFFD @ textEncode (d # s)
      else utf8 (unat c) @ textEncode (d # s))"

text \<open>
  \<open>encodeURIComponent\<close>: letters, digits and \<^verbatim>\<open>-_.!~*'()\<close> are kept, every other
  character is written as the bytes of its UTF-8 form, each as \<open>%XX\<close>; a surrogate
  without its partner throws a URIError.
\<close>

definition uriUnescaped :: jsstring where
  "uriUnescaped =
     js ''ABCDEFGHIJKLMNOPQRSTUVWXYZabcdefghijklmnopqrstuvwxyz0123456789-_.!~*()'' @ [0x27]"

definition hexDigit :: "nat \<Rightarrow> code_unit" where
  "hexDigit n = js ''0123456789ABCDEF'' ! n"

definition percentEncode :: "byte \<Rightarrow> jsstring" where
  "percentEncode b = [0x25, hexDigit (unat b div 16), hexDigit (unat b mod 16)]"

definition escaped :: "nat \<Rightarrow> jsstring" where
  "escaped cp = concat (map percentEncode (utf8 cp))"

definition followedBy :: "jsstring \<Rightarrow> exn + jsstring \<Rightarrow> exn + jsstring" where
  "followedBy s r = (case r of Inl e \<Rightarrow> Inl e | Inr t \<Rightarrow> Inr (s @ t))"

fun encodeURIComponent :: "jsstring \<Rightarrow> exn + jsstring" where
  "encodeURIComponent [] = Inr []"
| "encodeURIComponent [c] =
     (if c \<in> set uriUnescaped then Inr [c]
      else if isHighSurrogate c \<or> isLowSurrogate c then Inl URIError
      else Inr (escaped (unat c)))"
| "encodeURIComponent (c # d # s) =
     (if c \<in> set uriUnescaped then followedBy [c] (encodeURIComponent (d # s))
      else if isHighSurrogate c \<and> isLowSurrogate d
      then followedBy (escaped (0x10000 + (unat c - 0xD800) * 0x400 + (unat d - 0xDC00)))
             (encodeURIComponent s)
      else if isHighSurrogate c \<or> isLowSurrogate c then Inl URIError
      else followedBy (escaped (unat c)) (encodeURIComponent (d # s)))"

definition encodeBase64 :: "jsstring \<Rightarrow> exn + jsstring" where
  "encodeBase64 str = btoa (fromCharCodes (textEncode str))"

definition decodeBase64 :: "host \<Rightarrow> jsstring \<Rightarrow> exn + jsstring" where
  "decodeBase64 h base64 =
     (case atob (filter (\<lambda>c. c \<noteq> 0x0A) base64) of
        Inl e \<Rightarrow> Inl e
      | Inr binary \<Rightarrow> Inr (textDecode h (charCodes binary)))"

definition api_getFileContent :: "host \<Rightarrow> GitHubAPI \<Rightarrow> jsstring \<Rightarrow> jsstring option io" where
  "api_getFileContent h api p =
     tryCatch
       (await (lift (encodeURIComponent p))
          (\<lambda>encoded.
             await (request h api (Contents encoded (Some (api_branch api))) GET None)
               (\<lambda>response.
                  await (lift (getProp response ''content''))
                    (\<lambda>content.
                       if falsy (asString content) then resolve None
                       else await (lift (getProp response ''encoding''))
                         (\<lambda>encoding.
                            if asString encoding = Some (js ''base64'')
                            then await (lift (decodeBase64 h (template (asString content))))
                                   (\<lambda>text. resolve (Some text))
                            else resolve None)))))
       (\<lambda>_. resolve None)"

definition getFileSha :: "host \<Rightarrow> GitHubAPI \<Rightarrow> jsstring \<Rightarrow> jsstring option io" where
  "getFileSha h api p =
     tryCatch
       (await (lift (encodeURIComponent p))
          (\<lambda>encoded.
             await (request h api (Contents encoded (Some (api_branch api))) GET None)
               (\<lambda>response. await (lift (getProp response ''sha''))
                  (\<lambda>sha. resolve (asString sha)))))
       (\<lambda>_. resolve None)"

definition putFile :: "host \<Rightarrow> GitHubAPI \<Rightarrow> jsstring \<Rightarrow> jsstring \<Rightarrow> jsstring \<Rightarrow> bool io" where
  "putFile h api p content msg =
     tryCatch
       (await (getFileSha h api p)
          (\<lambda>sha. await (lift (encodeBase64 content))
             (\<lambda>base64.
                await (lift (encodeURIComponent p))
                  (\<lambda>encoded.
                     await (request h api (Contents encoded None) PUT
                              (Some (JObj ([(''message'', JStr msg), (''content'', JStr base64),
                                            (''branch'', JStr (api_branch api))]
                                           @ (if falsy sha then [] else optField ''sha'' sha)))))
                       (\<lambda>_. resolve True)))))
       (\<lambda>error. resolve False)"

definition deleteFile :: "host \<Rightarrow> GitHubAPI \<Rightarrow> jsstring \<Rightarrow> jsstring \<Rightarrow> bool io" where
  "deleteFile h api p msg =
     tryCatch
       (await (getFileSha h api p)
          (\<lambda>sha.
             if falsy sha then resolve True
             else await (lift (encodeURIComponent p))
                    (\<lambda>encoded.
                       await (request h api (Contents encoded None) DELETE
                                (Some (JObj ([(''message'', JStr msg)] @ optField ''sha'' sha
                                             @ [(''branch'', JStr (api_branch api))]))))
                         (\<lambda>_. resolve True))))
       (\<lambda>error. resolve False)"

definition treeItemJson :: "GitHubTreeItem \<Rightarrow> json" where
  "treeItemJson item =
     JObj ([(''path'', JStr (item_path item)), (''mode'', JStr (item_mode item)),
            (''type'', JStr (item_type item))]
           @ optField ''sha'' (item_sha item) @ optField ''content'' (item_content item))"

definition createTree :: "host \<Rightarrow> GitHubAPI \<Rightarrow> jsstring option \<Rightarrow> GitHubTreeItem list \<Rightarrow> jsstring option io" where
  "createTree h api baseTreeSha items =
     await (request h api Trees POST
              (Some (JObj ([(''tree'', JArr (map treeItemJson items))]
                           @ (if falsy baseTreeSha then [] else optField ''base_tree'' baseTreeSha)))))
       (\<lambda>response. await (lift (getProp response ''sha'')) (\<lambda>sha. resolve (asString sha)))"

definition createCommit :: "host \<Rightarrow> GitHubAPI \<Rightarrow> jsstring \<Rightarrow> jsstring option \<Rightarrow> jsstring option \<Rightarrow> jsstring option io" where
  "createCommit h api msg treeSha parentSha =
     await (request h api Commits POST
              (Some (JObj ([(''message'', JStr msg)] @ optField ''tree'' treeSha
                           @ (case parentSha of
                                None \<Rightarrow> []
                              | Some p \<Rightarrow> if p = [] then [] else [(''parents'', JArr [JStr p])])))))
       (\<lambda>response. await (lift (getProp response ''sha'')) (\<lambda>sha. resolve (asString sha)))"

definition updateBranchRef :: "host \<Rightarrow> GitHubAPI \<Rightarrow> jsstring option \<Rightarrow> bool io" where
  "updateBranchRef h api commitSha =
     tryCatch
       (await (request h api (RefHead (api_branch api)) PATCH
                 (Some (JObj (optField ''sha'' commitSha @ [(''force'', JBool True)]))))
          (\<lambda>_. resolve True))
       (\<lambda>_. tryCatch
          (await (request h api Refs POST
                    (Some (JObj ([(''ref'', JStr (js ''refs/heads/'' @ api_branch api))]
                                 @ optField ''sha'' commitSha))))
             (\<lambda>_. resolve True))
          (\<lambda>createError. resolve False))"

text \<open>
  The loop of \<open>batchUpload\<close> over the files (pairs of path and content), building
  \<open>treeItems\<close>.
\<close>

fun buildTreeItems :: "host \<Rightarrow> GitHubAPI \<Rightarrow> (jsstring \<times> jsstring) list \<Rightarrow> GitHubTreeItem list \<Rightarrow> GitHubTreeItem list io" where
  "buildTreeItems h api [] treeItems = resolve treeItems"
| "buildTreeItems h api ((p, content) # files) treeItems =
     (if length content < 100000
      then buildTreeItems h api files
             (treeItems @ [\<lparr> item_path = p, item_mode = js ''100644'', item_type = js ''blob'',
                             item_sha = None, item_content = Some content \<rparr>])
      else await (lift (encodeBase64 content))
             (\<lambda>encoded.
                await (request h api Blobs POST
                         (Some (JObj [(''content'', JStr encoded), (''encoding'', JStr (js ''base64''))])))
                  (\<lambda>blobResponse.
                     await (lift (getProp blobResponse ''sha''))
                       (\<lambda>sha. buildTreeItems h api files
                          (treeItems @ [\<lparr> item_path = p, item_mode = js ''100644'',
                                           item_type = js ''blob'', item_sha = asString sha,
                                           item_content = None \<rparr>])))))"

definition batchUpload :: "host \<Rightarrow> GitHubAPI \<Rightarrow> (jsstring \<times> jsstring) list \<Rightarrow> jsstring \<Rightarrow> bool io" where
  "batchUpload h api files msg =
     tryCatch
       (await (getLatestCommitSha h api)
          (\<lambda>commitSha.
             await (if falsy commitSha then resolve None
                    else getTreeSha h api (template commitSha))
               (\<lambda>baseTreeSha.
                  await (buildTreeItems h api files [])
                    (\<lambda>treeItems.
                       if treeItems = [] then resolve True
                       else await (createTree h api baseTreeSha treeItems)
                         (\<lambda>newTreeSha.
                            await (createCommit h api msg newTreeSha commitSha)
                              (\<lambda>newCommitSha. updateBranchRef h api newCommitSha))))))
       (\<lambda>error. resolve False)"

section \<open>The synchronization engine (sync-service.ts)\<close>

record SyncService =
  settings :: GitSyncSettings
  api :: "GitHubAPI option"
  isSyncing :: bool

definition initializeAPI :: "GitSyncSettings \<Rightarrow> GitHubAPI option" where
  "initializeAPI s =
     (if githubUsername s \<noteq> [] \<and> githubToken s \<noteq> [] \<and> repositoryName s \<noteq> []
      then Some \<lparr> username = githubUsername s, token = githubToken s, repo = repositoryName s,
                  api_branch = branch s \<rparr>
      else None)"

definition newSyncService :: "GitSyncSettings \<Rightarrow> SyncService" where
  "newSyncService s = \<lparr> settings = s, api = initializeAPI s, isSyncing = False \<rparr>"

definition updateSettings :: "SyncService \<Rightarrow> GitSyncSettings \<Rightarrow> SyncService" where
  "updateSettings svc s = svc \<lparr> settings := s, api := initializeAPI s \<rparr>"

definition isConfigured :: "SyncService \<Rightarrow> bool" where
  "isConfigured svc = (api svc \<noteq> None)"

definition isBusy :: "SyncService \<Rightarrow> bool" where
  "isBusy svc = isSyncing svc"

definition resolveConfigDir :: "host \<Rightarrow> jsstring \<Rightarrow> jsstring" where
  "resolveConfigDir h p = replace p (js ''{{configDir}}'') (configDir h)"

text \<open>
  The two exclusion tests, as the loops of \<open>getVaultFiles\<close> and \<open>pull\<close> make them: a
  path under a configured folder, and a file whose path ends with a configured name.
\<close>

definition inExcludedFolder :: "host \<Rightarrow> GitSyncSettings \<Rightarrow> jsstring \<Rightarrow> bool" where
  "inExcludedFolder h s p =
     list_ex (\<lambda>folder. startsWith p (resolveConfigDir h folder)) (excludedFolders s)"

definition getVaultFiles :: "host \<Rightarrow> GitSyncSettings \<Rightarrow> event list \<Rightarrow> TFile list" where
  "getVaultFiles h s w =
     filter (\<lambda>file.
        \<not> inExcludedFolder h s (path file)
        \<and> \<not> list_ex (\<lambda>excludedFile. name file = excludedFile \<or> endsWith (path file) excludedFile)
              (excludedFiles s))
       (getFiles h w)"

text \<open>\<open>s.toLowerCase()\<close> on the letters A to Z; other code units are left as they are.\<close>

definition toLowerCase :: "jsstring \<Rightarrow> jsstring" where
  "toLowerCase s = map (\<lambda>c. if 0x41 \<le> c \<and> c \<le> 0x5A then c + 0x20 else c) s"

text \<open>\<open>s.slice(b, e)\<close>: a negative index counts from the end.\<close>

definition slice :: "'a list \<Rightarrow> int \<Rightarrow> int \<Rightarrow> 'a list" where
  "slice s b e =
     (let len = int (length s);
          from = (if b < 0 then max (len + b) 0 else min b len);
          to = (if e < 0 then max (len + e) 0 else min e len)
      in take (nat (to - from)) (drop (nat from) s))"

text \<open>\<open>s.lastIndexOf(c)\<close> for one code unit, \<open>None\<close> for -1.\<close>

fun lastIndexOf :: "'a list \<Rightarrow> 'a \<Rightarrow> nat option" where
  "lastIndexOf [] c = None"
| "lastIndexOf (x # s) c =
     (case lastIndexOf s c of
        Some i \<Rightarrow> Some (Suc i)
      | None \<Rightarrow> if x = c then Some 0 else None)"

definition binaryExtensions :: "jsstring list" where
  "binaryExtensions =
     [js ''.png'', js ''.jpg'', js ''.jpeg'', js ''.gif'', js ''.pdf'', js ''.mp3'', js ''.mp4'',
      js ''.webp'', js ''.svg'', js ''.ico'']"

definition isBinary :: "TFile \<Rightarrow> bool" where
  "isBinary file = list_ex (\<lambda>ext. toLowerCase (extension file) = slice ext 1 (int (length ext)))
     binaryExtensions"

definition getFileContent :: "host \<Rightarrow> TFile \<Rightarrow> jsstring io" where
  "getFileContent h file =
     (if isBinary file
      then await (vaultReadBytes h file)
             (\<lambda>bytes. await (lift (btoa (fromCharCodes bytes)))
                (\<lambda>base64. resolve (js ''[BINARY:'' @ base64 @ js '']'')))
      else vaultReadText h file)"

definition ensureFolder :: "host \<Rightarrow> jsstring \<Rightarrow> unit io" where
  "ensureFolder h filePath =
     (\<lambda>w. let folderPath = (case lastIndexOf filePath 0x2F of
                               None \<Rightarrow> []
                             | Some i \<Rightarrow> take i filePath)
          in if folderPath \<noteq> [] \<and> getAbstractFileByPath h w folderPath = None
             then vaultDo h (CreateFolder folderPath) w
             else resolve () w)"

definition writeFileContent :: "host \<Rightarrow> jsstring \<Rightarrow> jsstring \<Rightarrow> unit io" where
  "writeFileContent h p content =
     (let normalizedPath = normalizePath h p
      in if startsWith content (js ''[BINARY:'') \<and> endsWith content (js '']'')
         then await (lift (atob (slice content 8 (- 1))))
                (\<lambda>binary.
                   let bytes = charCodes binary
                   in await (ensureFolder h normalizedPath)
                        (\<lambda>_ w. case getAbstractFileByPath h w normalizedPath of
                                  Some (IsFile existingFile) \<Rightarrow>
                                    vaultDo h (ModifyBinary existingFile bytes) w
                                | _ \<Rightarrow> vaultDo h (CreateBinary normalizedPath bytes) w))
         else await (ensureFolder h normalizedPath)
                (\<lambda>_ w. case getAbstractFileByPath h w normalizedPath of
                          Some (IsFile existingFile) \<Rightarrow> vaultDo h (Modify existingFile content) w
                        | _ \<Rightarrow> vaultDo h (Create normalizedPath content) w))"

definition failure :: "jsstring \<Rightarrow> SyncResult" where
  "failure m = \<lparr> success = False, message = m, filesUploaded = 0, filesDownloaded = 0,
                 filesDeleted = 0 \<rparr>"

text \<open>The loop of \<open>push\<close> and \<open>sync\<close> that reads every file into \<open>filesToUpload\<close>.\<close>

fun readFiles :: "host \<Rightarrow> TFile list \<Rightarrow> (jsstring \<times> jsstring) list \<Rightarrow> (jsstring \<times> jsstring) list io" where
  "readFiles h [] filesToUpload = resolve filesToUpload"
| "readFiles h (file # files) filesToUpload =
     await (getFileContent h file)
       (\<lambda>content. readFiles h files (filesToUpload @ [(path file, content)]))"

text \<open>
  The bodies of the three operations (what is inside \<open>try\<close>) are given the client that
  \<open>this.api\<close> held when the operation was called, for the call on it that comes before the
  first \<open>await\<close>, and the settings and the client of the engine for everything after:
  \<open>this.settings\<close> and \<open>this.api\<close> are read again at every use, and a call on a client
  that has become \<open>null\<close> throws a TypeError.
\<close>

definition onClient :: "GitHubAPI option \<Rightarrow> (GitHubAPI \<Rightarrow> 'a io) \<Rightarrow> 'a io" where
  "onClient client call = (case client of None \<Rightarrow> reject TypeError | Some a \<Rightarrow> call a)"

definition pushBody :: "host \<Rightarrow> GitSyncSettings \<Rightarrow> GitHubAPI \<Rightarrow> GitHubAPI option \<Rightarrow> SyncResult io" where
  "pushBody h s a client =
     await (notice (js ''Pushing to GitHub.''))
       (\<lambda>_. await (ensureRepository h a)
          (\<lambda>repoExists.
             if \<not> repoExists then reject (Error (js ''Could not access or create repository''))
             else (\<lambda>w. await (readFiles h (getVaultFiles h s w) [])
                    (\<lambda>filesToUpload.
                       if length filesToUpload = 0
                       then resolve \<lparr> success = True, message = js ''No files to push'',
                                      filesUploaded = 0, filesDownloaded = 0, filesDeleted = 0 \<rparr>
                       else await (onClient client (\<lambda>current w.
                                     batchUpload h current filesToUpload
                                       (getCommitMessage s (clock h w)) w))
                         (\<lambda>ok.
                            if ok
                            then await (notice (js ''GitSync: Pushed '' @ decimal (length filesToUpload)
                                                  @ js '' files to GitHub''))
                                   (\<lambda>_. resolve
                                      \<lparr> success = True,
                                        message = js ''Successfully pushed ''
                                          @ decimal (length filesToUpload) @ js '' files'',
                                        filesUploaded = length filesToUpload,
                                        filesDownloaded = 0, filesDeleted = 0 \<rparr>)
                            else reject (Error (js ''Failed to push files to GitHub'')))) w)))"

text \<open>
  An \<open>async\<close> function that is called runs without interruption up to its first
  \<open>await\<close> and hands back a promise. The promise is settled when the function returned
  before any \<open>await\<close>. Otherwise it is pending: the rest of the function is resumed
  later, on the engine and the events as they are then.
\<close>

datatype 'a promise =
    Settled 'a
  | Pending "SyncService \<Rightarrow> event list \<Rightarrow> 'a \<times> SyncService \<times> event list"

text \<open>
  The frame all three operations share. The two checks and the flag set come before the
  first \<open>await\<close>; so does the start of the body, up to its first call on the client, for
  which \<open>this.api\<close> is read there. The operation is suspended once, at that first
  \<open>await\<close>, and the events of its body are all recorded when it is resumed: the body
  then runs to the end on the settings and the client that the engine has at that moment,
  \<open>catch\<close> makes the failure result of what the body threw, and \<open>finally\<close> clears the
  flag of the engine.
\<close>

definition operation :: "jsstring \<Rightarrow> (GitSyncSettings \<Rightarrow> GitHubAPI \<Rightarrow> GitHubAPI option \<Rightarrow> SyncResult io) \<Rightarrow> SyncService \<Rightarrow> SyncResult promise \<times> SyncService" where
  "operation failedPrefix opBody svc =
     (case api svc of
        None \<Rightarrow> (Settled (failure (js ''GitHub not configured'')), svc)
      | Some a \<Rightarrow>
          if isSyncing svc then (Settled (failure (js ''Sync already in progress'')), svc)
          else (Pending (\<lambda>self w.
                   case opBody (settings self) a (api self) w of
                     (Inr result, w') \<Rightarrow> (result, self \<lparr> isSyncing := False \<rparr>, w')
                   | (Inl error, w') \<Rightarrow>
                       (failure (errorMessage error), self \<lparr> isSyncing := False \<rparr>,
                        snd (notice (failedPrefix @ errorMessage error) w'))),
                svc \<lparr> isSyncing := True \<rparr>))"

text \<open>
  A call that is awaited while nothing else happens on the engine (\<open>await this.push()\<close>):
  a pending promise is resumed at once.
\<close>

definition awaited :: "(SyncService \<Rightarrow> 'a promise \<times> SyncService) \<Rightarrow> SyncService \<Rightarrow> event list \<Rightarrow> 'a \<times> SyncService \<times> event list" where
  "awaited call svc w =
     (case call svc of
        (Settled r, svc') \<Rightarrow> (r, svc', w)
      | (Pending rest, svc') \<Rightarrow> rest svc' w)"

text \<open>
  The engine over time. Its commands and its timer call operations on one service object
  whenever they fire, also while an earlier call is pending; the settings tab replaces
  the settings at any moment; a pending operation is resumed at some moment. An engine
  is the shared service object, the operations that are pending, and the events so far;
  \<open>reachable calls\<close> are the engines that the calls of \<open>calls\<close> lead to, in any order.
\<close>

record engine =
  shared :: SyncService
  pending :: "(SyncService \<Rightarrow> event list \<Rightarrow> SyncResult \<times> SyncService \<times> event list) list"
  history :: "event list"

inductive reachable :: "(SyncService \<Rightarrow> SyncResult promise \<times> SyncService) set \<Rightarrow> engine \<Rightarrow> bool"
  for calls :: "(SyncService \<Rightarrow> SyncResult promise \<times> SyncService) set" where
  created: "reachable calls \<lparr> shared = newSyncService s, pending = [], history = w \<rparr>"
| settled: "reachable calls e \<Longrightarrow> call \<in> calls \<Longrightarrow> call (shared e) = (Settled r, svc) \<Longrightarrow>
     reachable calls (e \<lparr> shared := svc \<rparr>)"
| suspended: "reachable calls e \<Longrightarrow> call \<in> calls \<Longrightarrow> call (shared e) = (Pending rest, svc) \<Longrightarrow>
     reachable calls (e \<lparr> shared := svc, pending := pending e @ [rest] \<rparr>)"
| resumed: "reachable calls e \<Longrightarrow> pending e = earlier @ rest # later \<Longrightarrow>
     rest (shared e) (history e) = (r, svc, w) \<Longrightarrow>
     reachable calls \<lparr> shared = svc, pending = earlier @ later, history = w \<rparr>"
| updated: "reachable calls e \<Longrightarrow> reachable calls (e \<lparr> shared := updateSettings (shared e) s \<rparr>)"

definition pushCall :: "host \<Rightarrow> SyncService \<Rightarrow> SyncResult promise \<times> SyncService" where
  "pushCall h = operation (js ''GitSync: Push failed - '') (pushBody h)"

definition push :: "host \<Rightarrow> SyncService \<Rightarrow> event list \<Rightarrow> SyncResult \<times> SyncService \<times> event list" where
  "push h = awaited (pushCall h)"

text \<open>The loop of \<open>pull\<close> over the remote files, counting the files downloaded.\<close>

fun pullFiles :: "host \<Rightarrow> GitSyncSettings \<Rightarrow> GitHubAPI option \<Rightarrow> GitHubFile list \<Rightarrow> nat \<Rightarrow> nat io" where
  "pullFiles h s client [] downloaded = resolve downloaded"
| "pullFiles h s client (remoteFile # remoteFiles) downloaded =
     (let shouldSkip =
            (inExcludedFolder h s (gh_path remoteFile)
             \<or> list_ex (\<lambda>excludedFile. endsWith (gh_path remoteFile) excludedFile) (excludedFiles s))
      in if shouldSkip then pullFiles h s client remoteFiles downloaded
         else await (onClient client (\<lambda>current. api_getFileContent h current (gh_path remoteFile)))
           (\<lambda>content.
              case content of
                None \<Rightarrow> pullFiles h s client remoteFiles downloaded
              | Some c \<Rightarrow>
                  await (writeFileContent h (gh_path remoteFile) c)
                    (\<lambda>_. pullFiles h s client remoteFiles (downloaded + 1))))"

definition pullBody :: "host \<Rightarrow> GitSyncSettings \<Rightarrow> GitHubAPI \<Rightarrow> GitHubAPI option \<Rightarrow> SyncResult io" where
  "pullBody h s a client =
     await (notice (js ''Pulling from GitHub.''))
       (\<lambda>_. await (getAllFiles h a)
          (\<lambda>remoteFiles. await (pullFiles h s client remoteFiles 0)
             (\<lambda>downloaded.
                await (notice (js ''GitSync: Pulled '' @ decimal downloaded
                               @ js '' files from GitHub''))
                  (\<lambda>_. resolve
                     \<lparr> success = True,
                       message = js ''Successfully pulled '' @ decimal downloaded @ js '' files'',
                       filesUploaded = 0, filesDownloaded = downloaded, filesDeleted = 0 \<rparr>))))"

definition pullCall :: "host \<Rightarrow> SyncService \<Rightarrow> SyncResult promise \<times> SyncService" where
  "pullCall h = operation (js ''GitSync: Pull failed - '') (pullBody h)"

definition pull :: "host \<Rightarrow> SyncService \<Rightarrow> event list \<Rightarrow> SyncResult \<times> SyncService \<times> event list" where
  "pull h = awaited (pullCall h)"

text \<open>
  The keys of a \<open>Map\<close> filled by \<open>set\<close> in list order: each key once, at the place of
  its first insertion.
\<close>

fun mapKeys :: "'a list \<Rightarrow> 'a list \<Rightarrow> 'a list" where
  "mapKeys keys [] = keys"
| "mapKeys keys (k # ks) = mapKeys (if k \<in> set keys then keys else keys @ [k]) ks"

text \<open>The download loop of \<open>sync\<close> over the keys of \<open>remoteFileMap\<close>.\<close>

fun syncDownload :: "host \<Rightarrow> GitSyncSettings \<Rightarrow> GitHubAPI option \<Rightarrow> jsstring list \<Rightarrow> jsstring list \<Rightarrow> nat \<Rightarrow> nat io" where
  "syncDownload h s client vaultPaths [] downloaded = resolve downloaded"
| "syncDownload h s client vaultPaths (p # paths) downloaded =
     (let shouldSkip = inExcludedFolder h s p
      in if shouldSkip then syncDownload h s client vaultPaths paths downloaded
         else if p \<notin> set vaultPaths
         then await (onClient client (\<lambda>current. api_getFileContent h current p))
           (\<lambda>content.
              case content of
                None \<Rightarrow> syncDownload h s client vaultPaths paths downloaded
              | Some c \<Rightarrow>
                  await (writeFileContent h p c)
                    (\<lambda>_. syncDownload h s client vaultPaths paths (downloaded + 1)))
         else syncDownload h s client vaultPaths paths downloaded)"

definition syncBody :: "host \<Rightarrow> GitSyncSettings \<Rightarrow> GitHubAPI \<Rightarrow> GitHubAPI option \<Rightarrow> SyncResult io" where
  "syncBody h s a client =
     await (notice (js ''Starting sync.''))
       (\<lambda>_. await (ensureRepository h a)
          (\<lambda>repoExists.
             if \<not> repoExists then reject (Error (js ''Could not access or create repository''))
             else (\<lambda>w.
               (let vaultFiles = getVaultFiles h s w
                in await (onClient client (getAllFiles h))
                     (\<lambda>remoteFiles.
                        let vaultPaths = map path vaultFiles;
                            remotePaths = mapKeys [] (map gh_path remoteFiles)
                        in await (readFiles h vaultFiles [])
                             (\<lambda>filesToUpload.
                                let uploaded = length filesToUpload
                                in await (if length filesToUpload > 0
                                          then await (onClient client (\<lambda>current w.
                                                        batchUpload h current filesToUpload
                                                          (getCommitMessage s (clock h w)) w))
                                                 (\<lambda>uploadSuccess.
                                                    if \<not> uploadSuccess
                                                    then reject (Error (js ''Failed to upload files''))
                                                    else resolve ())
                                          else resolve ())
                                     (\<lambda>_. await (syncDownload h s client vaultPaths remotePaths 0)
                                        (\<lambda>downloaded.
                                           await (notice (js ''GitSync: Synced '' @ decimal uploaded
                                                          @ js '' up, '' @ decimal downloaded
                                                          @ js '' down''))
                                             (\<lambda>_. resolve
                                                \<lparr> success = True,
                                                  message = js ''Sync complete: '' @ decimal uploaded
                                                    @ js '' uploaded, '' @ decimal downloaded
                                                    @ js '' downloaded'',
                                                  filesUploaded = uploaded,
                                                  filesDownloaded = downloaded,
                                                  filesDeleted = 0 \<rparr>)))))) w)))"

definition syncCall :: "host \<Rightarrow> SyncService \<Rightarrow> SyncResult promise \<times> SyncService" where
  "syncCall h = operation (js ''GitSync: Sync failed - '') (syncBody h)"

definition sync :: "host \<Rightarrow> SyncService \<Rightarrow> event list \<Rightarrow> SyncResult \<times> SyncService \<times> event list" where
  "sync h = awaited (syncCall h)"

text \<open>The six-bit groups of a list of bytes, as \<open>btoa\<close> forms them.\<close>

fun sextets :: "nat list \<Rightarrow> nat list" where
  "sextets (a # b # c # r) =
     [a div 4, a mod 4 * 16 + b div 16, b mod 16 * 4 + c div 64, c mod 64] @ sextets r"
| "sextets [a, b] = [a div 4, a mod 4 * 16 + b div 16, b mod 16 * 4]"
| "sextets [a] = [a div 4, a mod 4 * 16]"
| "sextets [] = []"

text \<open>
  The request that \<open>request\<close> sends, and the two requests of \<open>deleteFile\<close>, for the
  path as \<open>encodeURIComponent\<close> has written it.
\<close>

definition requestOf :: "GitHubAPI \<Rightarrow> resource \<Rightarrow> http_method \<Rightarrow> json option \<Rightarrow> request" where
  "requestOf a res m b =
     \<lparr> owner = username a, repository = repo a, bearer = token a, resource = res, verb = m,
       body = b \<rparr>"

definition contentsLookup :: "GitHubAPI \<Rightarrow> jsstring \<Rightarrow> request" where
  "contentsLookup a encoded = requestOf a (Contents encoded (Some (api_branch a))) GET None"

definition deleteRequest :: "GitHubAPI \<Rightarrow> jsstring \<Rightarrow> jsstring \<Rightarrow> jsstring \<Rightarrow> request" where
  "deleteRequest a encoded msg sha =
     requestOf a (Contents encoded None) DELETE
       (Some (JObj [(''message'', JStr msg), (''sha'', JStr sha), (''branch'', JStr (api_branch a))]))"

text \<open>
  The events of a content lookup for a path (\<open>getFileSha\<close>, \<open>getFileContent\<close>): one
  request, or none when the path cannot be encoded. The lookup has failed when the path
  cannot be encoded, when the request is rejected, and when it is answered with a status
  of 400 or more.
\<close>

definition lookups :: "GitHubAPI \<Rightarrow> jsstring \<Rightarrow> event list" where
  "lookups a p =
     (case encodeURIComponent p of
        Inl e \<Rightarrow> []
      | Inr encoded \<Rightarrow> [Http (contentsLookup a encoded)])"

definition lookupFailed :: "host \<Rightarrow> event list \<Rightarrow> GitHubAPI \<Rightarrow> jsstring \<Rightarrow> bool" where
  "lookupFailed h w a p =
     (case encodeURIComponent p of
        Inl e \<Rightarrow> True
      | Inr encoded \<Rightarrow>
          (case requestUrl h w (contentsLookup a encoded) of
             Rejected e \<Rightarrow> True
           | Response status j \<Rightarrow> 400 \<le> status))"

text \<open>A client and a host to try things on: the host answers every request with 404.\<close>

definition exampleAPI :: GitHubAPI where
  "exampleAPI = \<lparr> username = js ''octocat'', token = js ''secret'', repo = js ''vault'',
     api_branch = js ''main'' \<rparr>"

definition notFoundHost :: host where
  "notFoundHost =
     \<lparr> configDir = js ''.obsidian'', normalizePath = (\<lambda>p. p), textDecode = map ucast,
       requestUrl = (\<lambda>w r. Response 404 (JObj [(''message'', JStr (js ''Not Found''))])),
       getFiles = (\<lambda>w. []), getAbstractFileByPath = (\<lambda>w p. None),
       vaultRead = (\<lambda>w f. Inr []), vaultReadBinary = (\<lambda>w f. Inr []),
       vaultWrite = (\<lambda>w c. None), clock = (\<lambda>w. exampleDate) \<rparr>"

text \<open>The request of \<open>getLatestCommitSha\<close>.\<close>

definition headLookup :: "GitHubAPI \<Rightarrow> request" where
  "headLookup a = requestOf a (RefHead (api_branch a)) GET None"

text \<open>
  The remote's answers for a branch without history: 404 when the ref does not exist,
  409 when the repository is empty.
\<close>

definition noHistoryReply :: "reply \<Rightarrow> bool" where
  "noHistoryReply r = (case r of Response status j \<Rightarrow> status = 404 \<or> status = 409 | Rejected e \<Rightarrow> False)"

text \<open>Hosts that answer every request the same way.\<close>

definition answering :: "reply \<Rightarrow> host" where
  "answering r = notFoundHost \<lparr> requestUrl := (\<lambda>w req. r) \<rparr>"

text \<open>
  The two kinds of tree entry that \<open>batchUpload\<close> builds, the base64 text it sends for a
  blob, and the blob request.
\<close>

definition inlineItem :: "jsstring \<Rightarrow> jsstring \<Rightarrow> GitHubTreeItem" where
  "inlineItem p content =
     \<lparr> item_path = p, item_mode = js ''100644'', item_type = js ''blob'', item_sha = None,
       item_content = Some content \<rparr>"

definition blobItem :: "jsstring \<Rightarrow> jsstring option \<Rightarrow> GitHubTreeItem" where
  "blobItem p sha =
     \<lparr> item_path = p, item_mode = js ''100644'', item_type = js ''blob'', item_sha = sha,
       item_content = None \<rparr>"

definition base64Of :: "jsstring \<Rightarrow> jsstring" where
  "base64Of content = btoaGroups (map unat (fromCharCodes (textEncode content)))"

definition blobRequest :: "GitHubAPI \<Rightarrow> jsstring \<Rightarrow> request" where
  "blobRequest a content =
     requestOf a Blobs POST
       (Some (JObj [(''content'', JStr (base64Of content)), (''encoding'', JStr (js ''base64''))]))"

definition isLarge :: "jsstring \<times> jsstring \<Rightarrow> bool" where
  "isLarge file = (\<not> length (snd file) < 100000)"

text \<open>
  The blob requests of a list of files, in order, and the entry of one file, given the
  events before its turn: the inline entry of a small file; for any other file, the
  entry that carries the \<open>sha\<close> of the answer to its blob request, an answer with a status
  below 400.
\<close>

definition blobRequests :: "GitHubAPI \<Rightarrow> (jsstring \<times> jsstring) list \<Rightarrow> event list" where
  "blobRequests a files = map (\<lambda>file. Http (blobRequest a (snd file))) (filter isLarge files)"

definition entryFor :: "host \<Rightarrow> GitHubAPI \<Rightarrow> event list \<Rightarrow> jsstring \<times> jsstring \<Rightarrow> GitHubTreeItem \<Rightarrow> bool" where
  "entryFor h a w file item =
     (if length (snd file) < 100000 then item = inlineItem (fst file) (snd file)
      else (case requestUrl h w (blobRequest a (snd file)) of
              Rejected e \<Rightarrow> False
            | Response status j \<Rightarrow>
                status < 400
                \<and> (case getProp j ''sha'' of
                       Inl e \<Rightarrow> False
                     | Inr sha \<Rightarrow> item = blobItem (fst file) (asString sha))))"

text \<open>The request of \<open>getTreeSha\<close>.\<close>

definition commitLookup :: "GitHubAPI \<Rightarrow> jsstring \<Rightarrow> request" where
  "commitLookup a commitSha = requestOf a (CommitOf commitSha) GET None"

text \<open>Settings that configure the engine, and the result of a push with nothing to push.\<close>

definition exampleSettings :: GitSyncSettings where
  "exampleSettings = DEFAULT_SETTINGS \<lparr> githubUsername := js ''octocat'',
     githubToken := js ''secret'', repositoryName := js ''vault'' \<rparr>"

definition nothingToPush :: SyncResult where
  "nothingToPush = \<lparr> success = True, message = js ''No files to push'', filesUploaded = 0,
     filesDownloaded = 0, filesDeleted = 0 \<rparr>"

text \<open>A host whose branch has a head commit that cannot be read.\<close>

definition brokenCommitHost :: host where
  "brokenCommitHost = notFoundHost \<lparr> requestUrl := (\<lambda>w req.
     case resource req of
       RefHead b \<Rightarrow> Response 200 (JObj [(''object'', JObj [(''sha'', JStr (js ''c0ffee''))])])
     | _ \<Rightarrow> Response 500 JNull) \<rparr>"

text \<open>
  What \<open>getFileContent\<close> returns for the bytes of a binary file, and the last step of
  \<open>writeFileContent\<close>: the write of the bytes or of the text, to the existing file or to
  a new one.
\<close>

definition binaryWrapper :: "byte list \<Rightarrow> jsstring" where
  "binaryWrapper bytes =
     js ''[BINARY:'' @ btoaGroups (map unat (fromCharCodes bytes)) @ js '']''"

definition writeBinary :: "host \<Rightarrow> jsstring \<Rightarrow> byte list \<Rightarrow> unit io" where
  "writeBinary h p bytes =
     (\<lambda>w. case getAbstractFileByPath h w p of
            Some (IsFile existingFile) \<Rightarrow> vaultDo h (ModifyBinary existingFile bytes) w
          | _ \<Rightarrow> vaultDo h (CreateBinary p bytes) w)"

definition writeText :: "host \<Rightarrow> jsstring \<Rightarrow> jsstring \<Rightarrow> unit io" where
  "writeText h p content =
     (\<lambda>w. case getAbstractFileByPath h w p of
            Some (IsFile existingFile) \<Rightarrow> vaultDo h (Modify existingFile content) w
          | _ \<Rightarrow> vaultDo h (Create p content) w)"

definition hasBinaryMarkers :: "jsstring \<Rightarrow> bool" where
  "hasBinaryMarkers content = (startsWith content (js ''[BINARY:'') \<and> endsWith content (js '']''))"

text \<open>A binary file and a host whose vault holds three bytes that are not valid text.\<close>

definition pngFile :: TFile where
  "pngFile = \<lparr> path = js ''pics/img.PNG'', name = js ''img.PNG'', extension = js ''PNG'' \<rparr>"

definition binaryHost :: host where
  "binaryHost = notFoundHost \<lparr> vaultReadBinary := (\<lambda>w f. Inr [0xFF, 0x00, 0x80]) \<rparr>"

text \<open>
  \<open>yields P m\<close>: whenever the asynchronous function \<open>m\<close> returns a value (rather than
  throwing), the value satisfies \<open>P\<close>.
\<close>

definition yields :: "('a \<Rightarrow> bool) \<Rightarrow> 'a io \<Rightarrow> bool" where
  "yields P m = (\<forall>w x w'. m w = (Inr x, w') \<longrightarrow> P x)"

text \<open>What the bodies of the three operations return when they do not throw.\<close>

definition goodResult :: "SyncResult \<Rightarrow> bool" where
  "goodResult r = (filesDeleted r = 0 \<and> success r)"

text \<open>
  The engine of the example settings: idle, in the middle of an operation, and in the
  middle of an operation when the settings tab has put the default settings (no account)
  in place of its own.
\<close>

definition idleService :: SyncService where
  "idleService = newSyncService exampleSettings"

definition busyService :: SyncService where
  "busyService = idleService \<lparr> isSyncing := True \<rparr>"

definition clearedService :: SyncService where
  "clearedService = updateSettings busyService DEFAULT_SETTINGS"

text \<open>What a call leaves pending on a service: the rest of the operation, or nothing.\<close>

definition resumption :: "(SyncService \<Rightarrow> 'a promise \<times> SyncService) \<Rightarrow> SyncService \<Rightarrow> (SyncService \<Rightarrow> event list \<Rightarrow> 'a \<times> SyncService \<times> event list) list" where
  "resumption call svc = (case fst (call svc) of Settled r \<Rightarrow> [] | Pending rest \<Rightarrow> [rest])"

text \<open>
  A host whose remote branch holds one file, \<open>.DS_Store\<close> (one zero byte), and whose vault
  is empty.
\<close>

definition remoteHost :: host where
  "remoteHost = notFoundHost \<lparr> requestUrl := (\<lambda>w req.
     case (resource req, verb req) of
       (Repo, GET) \<Rightarrow> Response 200 (JObj [])
     | (RefHead b, GET) \<Rightarrow> Response 200 (JObj [(''object'', JObj [(''sha'', JStr (js ''c0ffee''))])])
     | (CommitOf c, GET) \<Rightarrow> Response 200 (JObj [(''tree'', JObj [(''sha'', JStr (js ''7ree''))])])
     | (TreeRecursive t, GET) \<Rightarrow>
         Response 200 (JObj [(''tree'', JArr [JObj [(''path'', JStr (js ''.DS_Store'')),
                                                   (''sha'', JStr (js ''b10b'')),
                                                   (''type'', JStr (js ''blob''))]])])
     | (Contents p r, GET) \<Rightarrow>
         Response 200 (JObj [(''content'', JStr (js ''AA=='')), (''encoding'', JStr (js ''base64''))])
     | _ \<Rightarrow> Response 404 JNull) \<rparr>"

text \<open>A path that one of the two exclusion rules covers.\<close>

definition excludedPath :: "host \<Rightarrow> GitSyncSettings \<Rightarrow> jsstring \<Rightarrow> bool" where
  "excludedPath h s p =
     (inExcludedFolder h s p \<or> list_ex (\<lambda>excludedFile. endsWith p excludedFile) (excludedFiles s))"

section \<open>Proofs: strings and the commit message\<close>

lemma unat_digit: "unat (digit n) = 48 + n mod 10"
  unfolding digit_def by (rule of_nat_inverse [OF refl]) simp

lemma digit_neq: "c < 48 \<or> 57 < c \<Longrightarrow> digit n \<noteq> c"
proof
  assume c: "c < 48 \<or> 57 < c" and e: "digit n = c"
  have "unat c = 48 + n mod 10" using unat_digit [of n] e by simp
  moreover have "unat c < 48 \<or> 57 < unat c" using c by (simp add: word_less_nat_alt)
  ultimately show False by arith
qed

lemma digitVal_digit: "digitVal (digit n) = Some (n mod 10)"
proof -
  have "48 \<le> digit n \<and> digit n \<le> 57"
    by (simp add: word_le_nat_alt unat_digit)
  then show ?thesis by (simp add: digitVal_def unat_digit)
qed

lemma getSubstitution_plain: "0x24 \<notin> set r \<Longrightarrow> getSubstitution m b a r = r"
proof (induction r)
  case Nil
  show ?case by simp
next
  case (Cons c r)
  then have c: "c \<noteq> 0x24" and ih: "getSubstitution m b a r = r" by simp_all
  show ?case
  proof (cases r)
    case Nil
    then show ?thesis by simp
  next
    case (Cons d r')
    show ?thesis using c ih unfolding Cons by simp
  qed
qed


lemma pad2: "pad 2 n = [digit (n div 10), digit n]"
  by (simp add: numeral_2_eq_2)

lemma div100: "(n::nat) div 10 div 10 = n div 100"
  using div_mult2_eq [of n 10 10] by simp

lemma div1000: "(n::nat) div 10 div 10 div 10 = n div 1000"
  using div_mult2_eq [of n 100 10] by (simp add: div100)

lemma pad3: "pad 3 n = [digit (n div 100), digit (n div 10), digit n]"
  by (simp add: numeral_3_eq_3 div100)

lemma div1000': "(n::nat) div 10 div 100 = n div 1000"
  using div_mult2_eq [of n 10 100] by simp

lemma pad4: "pad 4 n = [digit (n div 1000), digit (n div 100), digit (n div 10), digit n]"
proof -
  have "pad 4 n = pad 3 (n div 10) @ [digit n]"
    using pad.simps(2) [of 3 n] by simp
  then show ?thesis by (simp add: pad3 div100 div1000')
qed

lemma yearString_4: "0 \<le> y \<Longrightarrow> y \<le> 9999 \<Longrightarrow> yearString y = pad 4 (nat y)"
  by (simp add: yearString_def)

lemma iso_explicit:
  assumes "0 \<le> year d" "year d \<le> 9999"
  shows "toISOString d = pad 4 (nat (year d)) @ 0x2D # pad 2 (month d) @ 0x2D # pad 2 (day d) @ 0x54 #
     pad 2 (hours d) @ 0x3A # pad 2 (minutes d) @ 0x3A # pad 2 (seconds d) @ 0x2E # pad 3 (milliseconds d) @ [0x5A]"
  unfolding toISOString_def yearString_4 [OF assms] js_def by simp

lemma startsWith_Nil [simp]: "startsWith s []"
  by (simp add: startsWith_def)

lemma indexOf_Some:
  "indexOf s p = Some i \<Longrightarrow>
     take (length p) (drop i s) = p \<and> (\<forall>j<i. take (length p) (drop j s) \<noteq> p)"
proof (induction s arbitrary: i)
  case Nil
  then show ?case by (simp split: if_splits)
next
  case (Cons c s)
  show ?case
  proof (cases "startsWith (c # s) p")
    case True
    with Cons.prems show ?thesis by (simp add: startsWith_def)
  next
    case False
    with Cons.prems obtain k where k: "indexOf s p = Some k" and i: "i = Suc k"
      by auto
    from Cons.IH [OF k] have a: "take (length p) (drop k s) = p"
      and b: "\<forall>j<k. take (length p) (drop j s) \<noteq> p" by simp_all
    have "\<forall>j<Suc k. take (length p) (drop j (c # s)) \<noteq> p"
    proof (intro allI impI)
      fix j assume "j < Suc k"
      show "take (length p) (drop j (c # s)) \<noteq> p"
      proof (cases j)
        case 0
        with False show ?thesis by (simp add: startsWith_def)
      next
        case (Suc j')
        with \<open>j < Suc k\<close> b show ?thesis by simp
      qed
    qed
    with a i show ?thesis by simp
  qed
qed

lemma indexOf_None:
  "indexOf s p = None \<Longrightarrow> take (length p) (drop j s) \<noteq> p"
proof (induction s arbitrary: j)
  case Nil
  then show ?case by (auto split: if_splits)
next
  case (Cons c s)
  from Cons.prems have n: "\<not> startsWith (c # s) p" and r: "indexOf s p = None"
    by (auto split: if_splits)
  show ?case
  proof (cases j)
    case 0
    with n show ?thesis by (simp add: startsWith_def)
  next
    case (Suc j')
    with Cons.IH [OF r, of j'] show ?thesis by simp
  qed
qed

lemma indexOf_NoneI:
  "(\<And>j. take (length p) (drop j s) \<noteq> p) \<Longrightarrow> indexOf s p = None"
proof (cases "indexOf s p")
  case None
  then show ?thesis .
next
  case (Some i)
  assume "\<And>j. take (length p) (drop j s) \<noteq> p"
  with indexOf_Some [OF Some] show ?thesis by simp
qed

lemma take_eq_length: "take (length p) w = p \<Longrightarrow> length p \<le> length w"
proof -
  assume "take (length p) w = p"
  then have "length (take (length p) w) = length p" by simp
  then show ?thesis by (simp only: length_take)
qed

lemma indexOf_unit:
  "c \<notin> set xs \<Longrightarrow> indexOf (xs @ c # ys) [c] = Some (length xs)"
  by (induction xs) (auto simp: startsWith_def)

lemma split_first:
  "sep \<notin> set xs \<Longrightarrow> split (xs @ sep # ys) sep = xs # split ys sep"
  by (induction xs) auto

lemma occurrence_split:
  assumes occ: "take (length p) (drop j (xs @ ys @ zs)) = p"
    and disj: "set ys \<inter> set p = {}" and ne: "ys \<noteq> []" "p \<noteq> []"
  shows "j + length p \<le> length xs \<or> length xs + length ys \<le> j"
proof (rule ccontr)
  assume "\<not> ?thesis"
  then have lo: "length xs < j + length p" and hi: "j < length xs + length ys" by simp_all
  define k where "k = (if length xs \<le> j then 0 else length xs - j)"
  have k: "k < length p" "length xs \<le> j + k" "j + k < length xs + length ys"
    using lo hi ne by (auto simp: k_def)
  define w where "w = xs @ ys @ zs"
  have occ': "take (length p) (drop j w) = p" using occ by (simp add: w_def)
  have "length p \<le> length (drop j w)" by (rule take_eq_length [OF occ'])
  then have inb: "j + length p \<le> length w" using ne by (cases p) simp_all
  have "p ! k = take (length p) (drop j w) ! k" using occ' by simp
  also have "\<dots> = w ! (j + k)" using k inb by simp
  also have "\<dots> = ys ! (j + k - length xs)"
  proof -
    have "\<not> j + k < length xs" "j + k - length xs < length ys" using k by arith+
    then show ?thesis by (simp add: w_def nth_append)
  qed
  finally have "p ! k = ys ! (j + k - length xs)" .
  moreover have "ys ! (j + k - length xs) \<in> set ys" using k by simp
  moreover have "p ! k \<in> set p" using k by simp
  ultimately show False using disj by auto
qed

lemma digit_neq': "c < 48 \<or> 57 < c \<Longrightarrow> c \<noteq> digit n"
  using digit_neq [of c n] by blast

lemma replace_unit:
  assumes "c \<notin> set xs"
  shows "replace (xs @ c # ys) [c] [r] = xs @ r # ys"
  by (simp add: replace_def indexOf_unit [OF assms])

lemma stamp_explicit:
  "stamp d = (let y = nat (year d) in
     [digit (y div 1000), digit (y div 100), digit (y div 10), digit y, 0x2D,
      digit (month d div 10), digit (month d), 0x2D, digit (day d div 10), digit (day d), 0x20,
      digit (hours d div 10), digit (hours d), 0x3A, digit (minutes d div 10), digit (minutes d), 0x3A,
      digit (seconds d div 10), digit (seconds d)])"
  by (simp add: stamp_def pad2 pad4 js_def Let_def)

lemma dateStr_valid:
  assumes "0 \<le> year d" "year d \<le> 9999"
  shows "dateStr d = stamp d"
proof -
  define P where "P = pad 4 (nat (year d)) @ 0x2D # pad 2 (month d) @ 0x2D # pad 2 (day d)"
  define Q where "Q = pad 2 (hours d) @ 0x3A # pad 2 (minutes d) @ 0x3A # pad 2 (seconds d)"
  define R where "R = pad 3 (milliseconds d) @ [0x5A]"
  have iso: "toISOString d = P @ 0x54 # Q @ 0x2E # R"
    by (simp add: iso_explicit [OF assms] P_def Q_def R_def)
  have P: "0x54 \<notin> set P" by (simp add: P_def pad2 pad4 digit_neq')
  have rep: "replace (toISOString d) (js ''T'') (js '' '') = P @ 0x20 # Q @ 0x2E # R"
    using replace_unit [OF P, of "Q @ 0x2E # R" "0x20"] by (simp add: iso js_def)
  have PQ: "0x2E \<notin> set (P @ 0x20 # Q)" by (simp add: P_def Q_def pad2 pad4 digit_neq')
  have "split ((P @ 0x20 # Q) @ 0x2E # R) 0x2E = (P @ 0x20 # Q) # split R 0x2E"
    by (rule split_first [OF PQ])
  then have "dateStr d = P @ 0x20 # Q" by (simp add: dateStr_def rep)
  then show ?thesis by (simp add: P_def Q_def stamp_def js_def)
qed

lemma parseNat_snoc:
  "parseNat acc (xs @ [c]) =
     (case parseNat acc xs of None \<Rightarrow> None
      | Some a \<Rightarrow> (case digitVal c of None \<Rightarrow> None | Some v \<Rightarrow> Some (10 * a + v)))"
  by (induction xs arbitrary: acc) (simp_all split: option.splits)

lemma parseNat_pad: "parseNat acc (pad k n) = Some (acc * 10 ^ k + n mod 10 ^ k)"
proof (induction k arbitrary: n)
  case 0
  show ?case by simp
next
  case (Suc k)
  have "n mod (10 * 10 ^ k) = 10 * (n div 10 mod 10 ^ k) + n mod 10"
    by (rule mod_mult2_eq)
  then show ?case by (simp add: parseNat_snoc Suc.IH digitVal_digit algebra_simps)
qed

lemma parse2: "n < 100 \<Longrightarrow> parseNat 0 [digit (n div 10), digit n] = Some n"
  using parseNat_pad [of 0 2 n] by (simp add: pad2)

lemma parse4:
  "y < 10000 \<Longrightarrow>
     parseNat 0 [digit (y div 1000), digit (y div 100), digit (y div 10), digit y] = Some y"
  using parseNat_pad [of 0 4 y] by (simp add: pad4)

lemma digit_range: "48 \<le> digit n \<and> digit n \<le> 57"
  by (simp add: word_le_nat_alt unat_digit)

lemma set_pad: "c \<in> set (pad k n) \<Longrightarrow> 48 \<le> c \<and> c \<le> 57"
proof (induction k arbitrary: n)
  case 0
  then show ?case by simp
next
  case (Suc k)
  from Suc.prems have "c \<in> set (pad k (n div 10)) \<or> c = digit n" by auto
  then show ?case using Suc.IH digit_range by blast
qed

lemma set_stamp:
  assumes "c \<in> set (stamp d)"
  shows "(48 \<le> c \<and> c \<le> 57) \<or> c = 0x2D \<or> c = 0x20 \<or> c = 0x3A"
proof -
  from assms have "c \<in> set (pad 4 (nat (year d))) \<or> c \<in> set (pad 2 (month d)) \<or> c \<in> set (pad 2 (day d))
      \<or> c \<in> set (pad 2 (hours d)) \<or> c \<in> set (pad 2 (minutes d)) \<or> c \<in> set (pad 2 (seconds d))
      \<or> c = 0x2D \<or> c = 0x20 \<or> c = 0x3A"
    unfolding stamp_def js_def by auto
  then show ?thesis using set_pad by blast
qed

lemma parseTimestamp_stamp:
  assumes "validDate d"
  shows "parseTimestamp (stamp d) =
           Some (nat (year d), month d, day d, hours d, minutes d, seconds d)"
proof -
  from assms have "year d \<le> 9999" by (simp add: validDate_def)
  then have y: "nat (year d) < 10000" by arith
  from assms have r: "month d < 100" "day d < 100" "hours d < 100"
      "minutes d < 100" "seconds d < 100"
    by (simp_all add: validDate_def)
  from assms have v: "1 \<le> month d \<and> month d \<le> 12 \<and> 1 \<le> day d \<and> day d \<le> 31 \<and> hours d < 24
      \<and> minutes d < 60 \<and> seconds d < 60"
    by (simp add: validDate_def)
  define y4 where "y4 = nat (year d)"
  have "parseTimestamp [digit (y4 div 1000), digit (y4 div 100), digit (y4 div 10), digit y4, 0x2D,
      digit (month d div 10), digit (month d), 0x2D, digit (day d div 10), digit (day d), 0x20,
      digit (hours d div 10), digit (hours d), 0x3A, digit (minutes d div 10), digit (minutes d), 0x3A,
      digit (seconds d div 10), digit (seconds d)] = Some (y4, month d, day d, hours d, minutes d, seconds d)"
    unfolding parseTimestamp_def
    using v by (simp add: parse4 [OF y [folded y4_def]] r [THEN parse2] del: parseNat.simps)
  then show ?thesis by (simp add: stamp_explicit Let_def y4_def)
qed

lemma contains_iff: "contains s p = (\<exists>j. take (length p) (drop j s) = p)"
proof
  assume "contains s p"
  then obtain i where "indexOf s p = Some i" by (auto simp: contains_def)
  from indexOf_Some [OF this] show "\<exists>j. take (length p) (drop j s) = p" by blast
next
  assume "\<exists>j. take (length p) (drop j s) = p"
  then show "contains s p" using indexOf_None [of s p] by (auto simp: contains_def)
qed

lemma stamp_no_dollar: "0x24 \<notin> set (stamp d)"
  using set_stamp [of "0x24" d] by auto

lemma stamp_token_disjoint: "set (stamp d) \<inter> set (js ''{{date}}'') = {}"
proof -
  have "c \<notin> set (stamp d)" if "c \<in> set (js ''{{date}}'')" for c
  proof
    assume "c \<in> set (stamp d)"
    from set_stamp [OF this] that show False by (auto simp: js_def)
  qed
  then show ?thesis by blast
qed

lemma length_stamp: "length (stamp d) = 19"
  by (simp add: stamp_explicit Let_def)

lemma replace_at:
  assumes "indexOf s p = Some i" "0x24 \<notin> set r"
  shows "replace s p r = take i s @ r @ drop (i + length p) s"
  using assms by (simp add: replace_def Let_def getSubstitution_plain)

lemma contains_after_replace:
  assumes first: "indexOf t p = Some i"
    and disj: "set st \<inter> set p = {}" and ne: "st \<noteq> []" "p \<noteq> []"
  shows "contains (take i t @ st @ drop (i + length p) t) p
           = contains (drop (i + length p) t) p"
proof -
  define n where "n = length p"
  define pre where "pre = take i t"
  define post where "post = drop (i + n) t"
  from indexOf_Some [OF first] have at: "take n (drop i t) = p"
    and before: "\<forall>j<i. take n (drop j t) \<noteq> p" by (simp_all add: n_def)
  have "n \<le> length (drop i t)" using take_eq_length [of p "drop i t"] at by (simp add: n_def)
  moreover have "0 < n" using ne by (simp add: n_def)
  ultimately have len: "i + n \<le> length t" by simp
  then have lpre: "length pre = i" by (simp add: pre_def)
  show ?thesis unfolding n_def [symmetric] pre_def [symmetric] post_def [symmetric]
  proof
    assume "contains (pre @ st @ post) p"
    then obtain j where j: "take n (drop j (pre @ st @ post)) = p"
      by (auto simp: contains_iff n_def)
    from occurrence_split [OF j [unfolded n_def] disj ne]
    have "j + n \<le> i \<or> i + length st \<le> j" by (simp add: lpre n_def)
    then show "contains post p"
    proof
      assume a: "j + n \<le> i"
      then have "take n (drop j (pre @ st @ post)) = take n (drop j pre)" by (simp add: lpre)
      also have "\<dots> = take n (drop j t)" using a
        by (simp add: pre_def drop_take min_def)
      finally have "take n (drop j t) = p" using j by simp
      moreover have "j < i" using a \<open>0 < n\<close> by simp
      ultimately show ?thesis using before by blast
    next
      assume a: "i + length st \<le> j"
      then have "drop j (pre @ st @ post) = drop (j - i - length st) post"
        by (simp add: lpre)
      then have "take n (drop (j - i - length st) post) = p" using j by simp
      then show ?thesis by (auto simp: contains_iff n_def)
    qed
  next
    assume "contains post p"
    then obtain j where j: "take n (drop j post) = p" by (auto simp: contains_iff n_def)
    have "drop (i + length st + j) (pre @ st @ post) = drop j post" by (simp add: lpre)
    then have "take n (drop (i + length st + j) (pre @ st @ post)) = p" using j by simp
    then have "\<exists>k. take (length p) (drop k (pre @ st @ post)) = p"
      unfolding n_def by (rule exI)
    then show "contains (pre @ st @ post) p" by (simp only: contains_iff)
  qed
qed

text \<open>
  Claim C4, as amended. When the commit-message template contains the token \<open>{{date}}\<close>,
  the rendered message is the template with the first occurrence of the token replaced by
  the clock's UTC time written \<open>YYYY-MM-DD HH:mm:ss\<close>. That text parses back to the
  clock's date and time, so the message contains a parseable timestamp. Only the first
  occurrence is replaced: the message still contains the token text exactly when the
  template has another occurrence after the first.
\<close>

theorem getCommitMessage_first_token:
  assumes "validDate now"
    and "indexOf (commitMessage s) (js ''{{date}}'') = Some i"
  shows "getCommitMessage s now
           = take i (commitMessage s) @ dateStr now @ drop (i + 8) (commitMessage s)
         \<and> parseTimestamp (dateStr now)
           = Some (nat (year now), month now, day now, hours now, minutes now, seconds now)
         \<and> contains (getCommitMessage s now) (js ''{{date}}'')
           = contains (drop (i + 8) (commitMessage s)) (js ''{{date}}'')"
proof -
  from assms(1) have y: "0 \<le> year now" "year now \<le> 9999" by (simp_all add: validDate_def)
  have st: "dateStr now = stamp now" by (rule dateStr_valid [OF y])
  have l: "length (js ''{{date}}'') = 8" by (simp add: js_def)
  have m: "getCommitMessage s now
             = take i (commitMessage s) @ stamp now @ drop (i + 8) (commitMessage s)"
    unfolding getCommitMessage_def st
    using replace_at [OF assms(2) stamp_no_dollar [of now]] by (simp only: l)
  have ne: "stamp now \<noteq> []" "js ''{{date}}'' \<noteq> []"
    using length_stamp [of now] l by auto
  have c: "contains (take i (commitMessage s) @ stamp now @ drop (i + 8) (commitMessage s))
             (js ''{{date}}'')
           = contains (drop (i + 8) (commitMessage s)) (js ''{{date}}'')"
    using contains_after_replace [OF assms(2) stamp_token_disjoint [of now] ne] by (simp only: l)
  show ?thesis
    using m c parseTimestamp_stamp [OF assms(1)] by (simp only: st simp_thms)
qed

theorem getCommitMessage_first_token_witness:
  "validDate exampleDate
   \<and> indexOf (commitMessage DEFAULT_SETTINGS) (js ''{{date}}'') = Some 15
   \<and> getCommitMessage DEFAULT_SETTINGS exampleDate = js ''Obsidian sync: 2024-01-15 10:30:00''
   \<and> parseTimestamp (dateStr exampleDate) = Some (2024, 1, 15, 10, 30, 0)
   \<and> \<not> contains (getCommitMessage DEFAULT_SETTINGS exampleDate) (js ''{{date}}'')"
proof -
  have v: "validDate exampleDate" by (simp add: validDate_def exampleDate_def)
  have i: "indexOf (commitMessage DEFAULT_SETTINGS) (js ''{{date}}'') = Some 15"
    by (simp add: DEFAULT_SETTINGS_def js_def startsWith_def)
  have d: "dateStr exampleDate = js ''2024-01-15 10:30:00''"
    by (simp add: dateStr_valid stamp_explicit exampleDate_def digit_def js_def)
  have t: "take 15 (commitMessage DEFAULT_SETTINGS) = js ''Obsidian sync: ''"
    and r: "drop (15 + 8) (commitMessage DEFAULT_SETTINGS) = []"
    by (simp_all add: DEFAULT_SETTINGS_def js_def)
  have e: "\<not> contains [] (js ''{{date}}'')" by (simp add: contains_def js_def)
  have f: "exampleDate = \<lparr> year = 2024, month = 1, day = 15, hours = 10, minutes = 30, seconds = 0,
     milliseconds = 0 \<rparr>" by (rule exampleDate_def)
  note T = getCommitMessage_first_token [OF v i, unfolded t r d]
  from T have 1: "getCommitMessage DEFAULT_SETTINGS exampleDate = js ''Obsidian sync: 2024-01-15 10:30:00''"
    by (simp add: js_def)
  from T have 2: "parseTimestamp (js ''2024-01-15 10:30:00'') = Some (2024, 1, 15, 10, 30, 0)"
    by (simp add: f)
  from T e have 3: "\<not> contains (getCommitMessage DEFAULT_SETTINGS exampleDate) (js ''{{date}}'')"
    by blast
  show ?thesis using v i 1 2 3 by (simp only: d simp_thms)
qed

text \<open>
  Claim C4 as stated fails: a template with two tokens keeps the second one.
\<close>

theorem getCommitMessage_second_token_stays:
  "contains (js ''{{date}} {{date}}'') (js ''{{date}}'')
   \<and> contains (getCommitMessage (DEFAULT_SETTINGS \<lparr> commitMessage := js ''{{date}} {{date}}'' \<rparr>)
         exampleDate) (js ''{{date}}'')"
  by code_simp

section \<open>Proofs: base64 round trip\<close>

lemma length_b64alphabet: "length b64alphabet = 64"
  by (simp add: b64alphabet_def js_def)

lemma distinct_b64alphabet: "distinct b64alphabet"
  by (simp add: b64alphabet_def js_def)

lemma position_nth: "distinct xs \<Longrightarrow> n < length xs \<Longrightarrow> position (xs ! n) xs = Some n"
proof (induction xs arbitrary: n)
  case Nil
  then show ?case by simp
next
  case (Cons x xs)
  show ?case
  proof (cases n)
    case 0
    then show ?thesis by simp
  next
    case (Suc m)
    with Cons.prems have m: "m < length xs" and d: "distinct xs" and x: "x \<notin> set xs" by simp_all
    from m x have "xs ! m \<noteq> x" by (metis nth_mem)
    with Cons.IH [OF d m] Suc show ?thesis by simp
  qed
qed

lemma b64index_b64char: "n < 64 \<Longrightarrow> b64index (b64char n) = Some n"
  unfolding b64index_def b64char_def
  by (rule position_nth [OF distinct_b64alphabet]) (simp add: length_b64alphabet)

lemma b64char_in: "n < 64 \<Longrightarrow> b64char n \<in> set b64alphabet"
  by (simp add: b64char_def length_b64alphabet)

lemma b64alphabet_not_pad: "0x3D \<notin> set b64alphabet"
  by (simp add: b64alphabet_def js_def)

lemma b64alphabet_not_ws: "c \<in> set b64alphabet \<Longrightarrow> \<not> isAsciiWhitespace c"
proof -
  have "list_all (\<lambda>c. \<not> isAsciiWhitespace c) b64alphabet"
    by (simp add: b64alphabet_def js_def isAsciiWhitespace_def)
  then show "c \<in> set b64alphabet \<Longrightarrow> \<not> isAsciiWhitespace c" by (simp add: list_all_iff)
qed

lemma sextet_lt_1: "(a::nat) < 256 \<Longrightarrow> a div 4 < 64" by simp
lemma sextet_lt_2: "(b::nat) < 256 \<Longrightarrow> a mod 4 * 16 + b div 16 < 64"
proof -
  assume "b < 256"
  then have "b div 16 < 16" by simp
  moreover have "a mod 4 * 16 \<le> 48" using mod_less_divisor [of 4 a] by simp
  ultimately show ?thesis by simp
qed
lemma sextet_lt_3: "(c::nat) < 256 \<Longrightarrow> b mod 16 * 4 + c div 64 < 64"
proof -
  assume "c < 256"
  then have "c div 64 < 4" by simp
  moreover have "b mod 16 * 4 \<le> 60" using mod_less_divisor [of 16 b] by simp
  ultimately show ?thesis by simp
qed
lemma sextet_lt_pad1: "(b::nat) mod 16 * 4 < 64" using mod_less_divisor [of 16 b] by simp
lemma sextet_lt_pad2: "(a::nat) mod 4 * 16 < 64" using mod_less_divisor [of 4 a] by simp

lemma decode_byte_1: "(b::nat) < 256 \<Longrightarrow> a div 4 * 4 + (a mod 4 * 16 + b div 16) div 16 = a"
proof -
  assume "b < 256"
  then have "b div 16 < 16" by simp
  then have "(a mod 4 * 16 + b div 16) div 16 = a mod 4" by simp
  then show ?thesis by simp
qed
lemma decode_byte_2:
  "(b::nat) < 256 \<Longrightarrow> (c::nat) < 256 \<Longrightarrow>
     (a mod 4 * 16 + b div 16) mod 16 * 16 + (b mod 16 * 4 + c div 64) div 4 = b"
proof -
  assume "b < 256" "c < 256"
  then have "c div 64 < 4" "b div 16 < 16" by simp_all
  then have "(b mod 16 * 4 + c div 64) div 4 = b mod 16"
    and "(a mod 4 * 16 + b div 16) mod 16 = b div 16" by simp_all
  then show ?thesis by simp
qed

lemma decode_byte_3: "(c::nat) < 256 \<Longrightarrow> (b mod 16 * 4 + c div 64) mod 4 * 64 + c mod 64 = c"
proof -
  assume "c < 256"
  then have "c div 64 < 4" by simp
  then have "(b mod 16 * 4 + c div 64) mod 4 = c div 64" by simp
  then show ?thesis by simp
qed

lemma decode_byte_1_pad: "(a::nat) div 4 * 4 + (a mod 4 * 16) div 16 = a"
  by simp

lemma decode_byte_2_pad:
  "(b::nat) < 256 \<Longrightarrow> (a mod 4 * 16 + b div 16) mod 16 * 16 + (b mod 16 * 4) div 4 = b"
proof -
  assume "b < 256"
  then have "b div 16 < 16" by simp
  then have "(a mod 4 * 16 + b div 16) mod 16 = b div 16" by simp
  then show ?thesis by simp
qed

lemma sextets_lt: "list_all (\<lambda>x. x < 256) xs \<Longrightarrow> list_all (\<lambda>s. s < 64) (sextets xs)"
proof (induction xs rule: sextets.induct)
  case (1 a b c r)
  then have "a < 256" "b < 256" "c < 256" and r: "list_all (\<lambda>s. s < 64) (sextets r)" by simp_all
  then show ?case using sextet_lt_1 [of a] sextet_lt_2 [of b a] sextet_lt_3 [of c b] by (simp del: mod_less_divisor)
next
  case (2 a b)
  then have "a < 256" "b < 256" by simp_all
  then show ?case using sextet_lt_1 [of a] sextet_lt_2 [of b a] sextet_lt_pad1 [of b] by simp
next
  case (3 a)
  then show ?case using sextet_lt_1 [of a] sextet_lt_pad2 [of a] by simp
next
  case 4
  show ?case by simp
qed

lemma decodeGroups_sextets:
  "list_all (\<lambda>x. x < 256) xs \<Longrightarrow> decodeGroups (sextets xs) = xs"
proof (induction xs rule: sextets.induct)
  case (1 a b c r)
  then have "a < 256" "b < 256" "c < 256" and r: "decodeGroups (sextets r) = r" by simp_all
  then show ?case using decode_byte_1 [of b a] decode_byte_2 [of b c a] decode_byte_3 [of c b] by (simp only: sextets.simps decodeGroups.simps append_Cons append_Nil r)
next
  case (2 a b)
  then have "a < 256" "b < 256" by simp_all
  then show ?case using decode_byte_1 [of b a] decode_byte_2_pad [of b a] by (simp only: sextets.simps decodeGroups.simps)
next
  case (3 a)
  show ?case using decode_byte_1_pad [of a] by (simp only: sextets.simps decodeGroups.simps)
next
  case 4
  show ?case by simp
qed

lemma length_sextets: "length (sextets xs) mod 4 \<noteq> 1"
  by (induction xs rule: sextets.induct) simp_all

lemma endsWith_subset: "endsWith s p \<Longrightarrow> set p \<subseteq> set s"
proof -
  assume "endsWith s p"
  then have "drop (length s - length p) s = p" by (simp add: endsWith_def)
  then show ?thesis using set_drop_subset [of "length s - length p" s] by simp
qed

lemma stripPadding_plain: "0x3D \<notin> set d \<Longrightarrow> stripPadding d = d"
proof -
  assume n: "0x3D \<notin> set d"
  have "\<not> endsWith d (js ''=='')" "\<not> endsWith d (js ''='')"
    using n endsWith_subset [of d "js ''==''"] endsWith_subset [of d "js ''=''"]
    by (auto simp: js_def)
  then show ?thesis by (simp add: stripPadding_def)
qed

lemma stripPadding_two:
  assumes "length pre mod 4 = 0"
  shows "stripPadding (pre @ [x, y, 0x3D, 0x3D]) = pre @ [x, y]"
proof -
  have "endsWith (pre @ [x, y, 0x3D, 0x3D]) (js ''=='')"
    by (simp add: endsWith_def js_def)
  moreover have "length (pre @ [x, y, 0x3D, 0x3D]) mod 4 = 0" using assms by simp
  moreover have "butlast (butlast (pre @ [x, y, 0x3D, 0x3D])) = pre @ [x, y]"
    by (simp add: butlast_append)
  ultimately show ?thesis by (simp only: stripPadding_def if_True refl)
qed

lemma stripPadding_one:
  assumes "length pre mod 4 = 0" "z \<noteq> 0x3D"
  shows "stripPadding (pre @ [x, y, z, 0x3D]) = pre @ [x, y, z]"
proof -
  have "\<not> endsWith (pre @ [x, y, z, 0x3D]) (js ''=='')"
    using assms(2) by (simp add: endsWith_def js_def)
  moreover have "endsWith (pre @ [x, y, z, 0x3D]) (js ''='')"
    by (simp add: endsWith_def js_def)
  moreover have "length (pre @ [x, y, z, 0x3D]) mod 4 = 0" using assms by simp
  moreover have "butlast (pre @ [x, y, z, 0x3D]) = pre @ [x, y, z]"
    by (simp add: butlast_append)
  ultimately show ?thesis by (simp only: stripPadding_def if_True if_False refl)
qed

lemma b64char_not_pad: "n < 64 \<Longrightarrow> b64char n \<noteq> 0x3D"
  using b64char_in [of n] b64alphabet_not_pad by auto

lemma stripPadding_btoaGroups:
  assumes "list_all (\<lambda>x. x < 256) xs" "length pre mod 4 = 0" "0x3D \<notin> set pre"
  shows "stripPadding (pre @ btoaGroups xs) = pre @ map b64char (sextets xs)"
  using assms
proof (induction xs arbitrary: pre rule: sextets.induct)
  case (1 a b c r)
  then have lt: "a < 256" "b < 256" "c < 256" and r: "list_all (\<lambda>x. x < 256) r" by simp_all
  define g where "g = [b64char (a div 4), b64char (a mod 4 * 16 + b div 16),
      b64char (b mod 16 * 4 + c div 64), b64char (c mod 64)]"
  have "0x3D \<notin> set g"
    using b64char_not_pad [OF sextet_lt_1 [OF lt(1)]] b64char_not_pad [OF sextet_lt_2 [OF lt(2), of a]]
      b64char_not_pad [OF sextet_lt_3 [OF lt(3), of b]] b64char_not_pad [of "c mod 64"]
    by (auto simp: g_def)
  then have p: "0x3D \<notin> set (pre @ g)" using "1.prems"(3) by simp
  have l: "length (pre @ g) mod 4 = 0" using "1.prems"(2) by (simp add: g_def)
  from "1.IH" [OF r l p] show ?case by (simp add: g_def)
next
  case (2 a b)
  have "b64char (b mod 16 * 4) \<noteq> 0x3D" by (rule b64char_not_pad [OF sextet_lt_pad1])
  from stripPadding_one [OF "2.prems"(2) this] show ?case by simp
next
  case (3 a)
  from stripPadding_two [OF "3.prems"(2)] show ?case by simp
next
  case 4
  then show ?case by (simp add: stripPadding_plain)
qed

lemma btoaGroups_no_ws:
  "list_all (\<lambda>x. x < 256) xs \<Longrightarrow> list_all (\<lambda>c. \<not> isAsciiWhitespace c) (btoaGroups xs)"
proof (induction xs rule: sextets.induct)
  case (1 a b c r)
  then have lt: "a < 256" "b < 256" "c < 256" and r: "list_all (\<lambda>c. \<not> isAsciiWhitespace c) (btoaGroups r)"
    by simp_all
  show ?case
    using r b64alphabet_not_ws [OF b64char_in [OF sextet_lt_1 [OF lt(1)]]]
      b64alphabet_not_ws [OF b64char_in [OF sextet_lt_2 [OF lt(2), of a]]]
      b64alphabet_not_ws [OF b64char_in [OF sextet_lt_3 [OF lt(3), of b]]]
      b64alphabet_not_ws [OF b64char_in [of "c mod 64"]]
    by simp
next
  case (2 a b)
  then have lt: "a < 256" "b < 256" by simp_all
  show ?case
    using b64alphabet_not_ws [OF b64char_in [OF sextet_lt_1 [OF lt(1)]]]
      b64alphabet_not_ws [OF b64char_in [OF sextet_lt_2 [OF lt(2), of a]]]
      b64alphabet_not_ws [OF b64char_in [OF sextet_lt_pad1 [of b]]]
    by (simp add: isAsciiWhitespace_def)
next
  case (3 a)
  then have lt: "a < 256" by simp
  show ?case
    using b64alphabet_not_ws [OF b64char_in [OF sextet_lt_1 [OF lt]]]
      b64alphabet_not_ws [OF b64char_in [OF sextet_lt_pad2 [of a]]]
    by (simp add: isAsciiWhitespace_def)
next
  case 4
  show ?case by simp
qed

lemma those_b64index:
  "list_all (\<lambda>s. s < 64) ss \<Longrightarrow> those (map b64index (map b64char ss)) = Some ss"
  by (induction ss) (simp_all add: b64index_b64char)

lemma atob_btoaGroups:
  assumes "list_all (\<lambda>x. x < 256) xs"
  shows "atob (btoaGroups xs) = Inr (map of_nat xs)"
proof -
  have f: "filter (\<lambda>c. \<not> isAsciiWhitespace c) (btoaGroups xs) = btoaGroups xs"
    using btoaGroups_no_ws [OF assms] by (simp add: list_all_iff)
  have s: "stripPadding (btoaGroups xs) = map b64char (sextets xs)"
    using stripPadding_btoaGroups [OF assms, of "[]"] by simp
  have l: "length (map b64char (sextets xs)) mod 4 \<noteq> 1"
    using length_sextets [of xs] by simp
  have t: "those (map b64index (map b64char (sextets xs))) = Some (sextets xs)"
    by (rule those_b64index [OF sextets_lt [OF assms]])
  show ?thesis
    unfolding atob_def f s Let_def using l t decodeGroups_sextets [OF assms] by simp
qed

lemma atob_btoa:
  assumes "\<not> list_ex (\<lambda>c. 0xFF < c) s"
  shows "btoa s = Inr (btoaGroups (map unat s))" "atob (btoaGroups (map unat s)) = Inr s"
proof -
  show "btoa s = Inr (btoaGroups (map unat s))" using assms by (simp add: btoa_def)
  have "list_all (\<lambda>x. x < 256) (map unat s)"
    using assms by (auto simp: list_all_iff list_ex_iff word_less_nat_alt not_less)
  from atob_btoaGroups [OF this] show "atob (btoaGroups (map unat s)) = Inr s"
    by (simp add: comp_def)
qed

lemma fromCharCodes_small: "\<not> list_ex (\<lambda>c. 0xFF < c) (fromCharCodes bytes)"
proof -
  have "\<not> 0xFF < (ucast b :: code_unit)" for b :: byte
  proof -
    have lt: "unat b < 256" using unsigned_less [of b, where 'a = nat] by simp
    then have "unat b < 2 ^ 16" by simp
    then have "take_bit 16 (unat b) = unat b" by (rule take_bit_nat_eq_self)
    then have "unat (ucast b :: code_unit) = unat b"
      by (simp add: unsigned_ucast_eq)
    moreover note lt
    ultimately show ?thesis by (simp add: word_less_nat_alt)
  qed
  then show ?thesis by (simp add: fromCharCodes_def list_ex_iff)
qed

lemma charCodes_fromCharCodes: "charCodes (fromCharCodes bytes) = bytes"
  by (simp add: charCodes_def fromCharCodes_def comp_def ucast_up_ucast_id is_up)

section \<open>Proofs: asynchronous steps, getFileSha and deleteFile\<close>

lemma resolve_apply [simp]: "resolve x w = (Inr x, w)"
  by (simp add: resolve_def)

lemma reject_apply [simp]: "reject e w = (Inl e, w)"
  by (simp add: reject_def)

lemma lift_simps [simp]: "lift (Inr x) = resolve x" "lift (Inl e) = reject e"
  by (simp_all add: lift_def)

lemma await_apply: "await m f w = (case m w of (Inl e, w') \<Rightarrow> (Inl e, w') | (Inr x, w') \<Rightarrow> f x w')"
  by (simp add: await_def)

lemma tryCatch_apply:
  "tryCatch m handler w = (case m w of (Inl e, w') \<Rightarrow> handler e w' | (Inr x, w') \<Rightarrow> (Inr x, w'))"
  by (simp add: tryCatch_def)

lemma notice_apply [simp]: "notice t w = (Inr (), w @ [Notice t])"
  by (simp add: notice_def)

lemma request_Rejected:
  "requestUrl h w (requestOf a res m b) = Rejected e \<Longrightarrow>
     request h a res m b w = (Inl e, w @ [Http (requestOf a res m b)])"
  by (simp add: request_def requestOf_def Let_def)

lemma request_error:
  "requestUrl h w (requestOf a res m b) = Response status j \<Longrightarrow> 400 \<le> status \<Longrightarrow>
     request h a res m b w
       = (Inl (Error (js ''GitHub API Error: '' @ apiErrorMessage status j)),
          w @ [Http (requestOf a res m b)])"
  by (simp add: request_def requestOf_def Let_def)

lemma request_ok:
  "requestUrl h w (requestOf a res m b) = Response status j \<Longrightarrow> status < 400 \<Longrightarrow>
     request h a res m b w = (Inr j, w @ [Http (requestOf a res m b)])"
  by (simp add: request_def requestOf_def Let_def)

lemma request_cases:
  obtains (fails) e where "request h a res m b w = (Inl e, w @ [Http (requestOf a res m b)])"
      and "(\<exists>e'. requestUrl h w (requestOf a res m b) = Rejected e')
           \<or> (\<exists>status j. requestUrl h w (requestOf a res m b) = Response status j \<and> 400 \<le> status)"
  | (ok) status j where "request h a res m b w = (Inr j, w @ [Http (requestOf a res m b)])"
      and "requestUrl h w (requestOf a res m b) = Response status j" "status < 400"
proof (cases "requestUrl h w (requestOf a res m b)")
  case (Rejected e)
  from request_Rejected [OF this] Rejected show ?thesis by (auto intro: fails)
next
  case (Response status j)
  show ?thesis
  proof (cases "400 \<le> status")
    case True
    from request_error [OF Response True] Response True show ?thesis by (auto intro: fails)
  next
    case False
    then have "status < 400" by simp
    from request_ok [OF Response this] Response this show ?thesis by (auto intro: ok)
  qed
qed

lemma lift_apply: "lift r w = (r, w)"
  by (cases r) simp_all

lemma getFileSha_unencodable:
  "encodeURIComponent p = Inl e \<Longrightarrow> getFileSha h a p w = (Inr None, w)"
  by (simp add: getFileSha_def tryCatch_apply await_apply)

lemma getFileSha_encoded:
  assumes "encodeURIComponent p = Inr encoded"
  shows "\<exists>sha. getFileSha h a p w = (Inr sha, w @ [Http (contentsLookup a encoded)])"
proof (cases rule: request_cases [of h a "Contents encoded (Some (api_branch a))" GET None w])
  case (fails e)
  then show ?thesis
    using assms by (simp add: getFileSha_def contentsLookup_def tryCatch_apply await_apply)
next
  case (ok status j)
  then show ?thesis
    using assms
    by (cases "getProp j ''sha''")
      (simp_all add: getFileSha_def contentsLookup_def tryCatch_apply await_apply)
qed

lemma getFileSha_trace: "\<exists>sha. getFileSha h a p w = (Inr sha, w @ lookups a p)"
proof (cases "encodeURIComponent p")
  case (Inl e)
  from getFileSha_unencodable [OF this] show ?thesis by (simp add: lookups_def Inl)
next
  case (Inr encoded)
  from getFileSha_encoded [OF this] show ?thesis by (simp add: lookups_def Inr)
qed

lemma getFileSha_failed:
  assumes "lookupFailed h w a p"
  shows "getFileSha h a p w = (Inr None, w @ lookups a p)"
proof (cases "encodeURIComponent p")
  case (Inl e)
  from getFileSha_unencodable [OF this] show ?thesis by (simp add: lookups_def Inl)
next
  case (Inr encoded)
  show ?thesis
  proof (cases rule: request_cases [of h a "Contents encoded (Some (api_branch a))" GET None w])
    case (fails e)
    then show ?thesis
      using Inr by (simp add: getFileSha_def contentsLookup_def lookups_def tryCatch_apply await_apply)
  next
    case (ok status j)
    with assms Inr show ?thesis by (simp add: lookupFailed_def contentsLookup_def)
  qed
qed

lemma deleteFile_falsy:
  assumes "getFileSha h a p w = (Inr sha, w')" "falsy sha"
  shows "deleteFile h a p msg w = (Inr True, w')"
  using assms by (simp add: deleteFile_def tryCatch_apply await_apply)

lemma deleteFile_sha:
  assumes "encodeURIComponent p = Inr encoded"
    and "getFileSha h a p w = (Inr (Some sha), w')" "sha \<noteq> []"
  shows "\<exists>ok. deleteFile h a p msg w = (Inr ok, w' @ [Http (deleteRequest a encoded msg sha)])"
proof -
  have f: "\<not> falsy (Some sha)" using assms(3) by (simp add: falsy_def)
  show ?thesis
  proof (cases rule: request_cases [of h a "Contents encoded None" DELETE
        "Some (JObj [(''message'', JStr msg), (''sha'', JStr sha), (''branch'', JStr (api_branch a))])" w'])
    case (fails e)
    then show ?thesis
      using assms(1,2) f
      by (auto simp: deleteFile_def optField_def deleteRequest_def tryCatch_apply await_apply)
  next
    case (ok status j)
    then show ?thesis
      using assms(1,2) f
      by (auto simp: deleteFile_def optField_def deleteRequest_def tryCatch_apply await_apply)
  qed
qed

text \<open>
  Claim C9. \<open>deleteFile\<close> first looks the content id up (\<open>getFileSha\<close>, which never
  throws): one GET for the encoded path, or no request at all when the path cannot be
  encoded. When the lookup gives no id (\<open>null\<close>, or an empty one), \<open>deleteFile\<close> returns
  \<open>true\<close> and has made no request but that of the lookup: no DELETE is issued. A DELETE
  request follows only when the lookup gave an id, and it carries that id. The lookup
  gives no id whenever it fails: the path cannot be encoded, the request is rejected
  (network failure) or it is answered with a status of 400 or more, whatever the reason.
\<close>

theorem deleteFile_only_with_content_id:
  "\<exists>sha. getFileSha h a p w = (Inr sha, w @ lookups a p)
     \<and> (falsy sha \<longrightarrow> deleteFile h a p msg w = (Inr True, w @ lookups a p))
     \<and> (\<not> falsy sha \<longrightarrow>
          (\<exists>encoded ok. encodeURIComponent p = Inr encoded
             \<and> deleteFile h a p msg w
                 = (Inr ok, w @ [Http (contentsLookup a encoded),
                                 Http (deleteRequest a encoded msg (template sha))])))
     \<and> (lookupFailed h w a p \<longrightarrow> sha = None)"
proof -
  from getFileSha_trace obtain sha
    where s: "getFileSha h a p w = (Inr sha, w @ lookups a p)" by blast
  have 1: "falsy sha \<longrightarrow> deleteFile h a p msg w = (Inr True, w @ lookups a p)"
    using deleteFile_falsy [OF s] by simp
  have 2: "\<not> falsy sha \<longrightarrow>
          (\<exists>encoded ok. encodeURIComponent p = Inr encoded
             \<and> deleteFile h a p msg w
                 = (Inr ok, w @ [Http (contentsLookup a encoded),
                                 Http (deleteRequest a encoded msg (template sha))]))"
  proof
    assume "\<not> falsy sha"
    then obtain x where x: "sha = Some x" "x \<noteq> []" by (cases sha) (auto simp: falsy_def)
    obtain encoded where q: "encodeURIComponent p = Inr encoded"
    proof (cases "encodeURIComponent p")
      case (Inl e)
      from getFileSha_unencodable [OF this, of h a w] s x(1) have False by simp
      then show ?thesis ..
    next
      case (Inr encoded)
      then show ?thesis by (rule that)
    qed
    from s q x(1) have "getFileSha h a p w = (Inr (Some x), w @ [Http (contentsLookup a encoded)])"
      by (simp add: lookups_def)
    from deleteFile_sha [OF q this x(2), of msg] obtain ok where
      "deleteFile h a p msg w
         = (Inr ok, w @ [Http (contentsLookup a encoded), Http (deleteRequest a encoded msg x)])"
      by auto
    with q x(1) show "\<exists>encoded ok. encodeURIComponent p = Inr encoded
             \<and> deleteFile h a p msg w
                 = (Inr ok, w @ [Http (contentsLookup a encoded),
                                 Http (deleteRequest a encoded msg (template sha))])"
      by (auto simp: template_def)
  qed
  have 3: "lookupFailed h w a p \<longrightarrow> sha = None"
  proof
    assume "lookupFailed h w a p"
    from getFileSha_failed [OF this] s show "sha = None" by simp
  qed
  from s 1 2 3 show ?thesis by blast
qed

theorem deleteFile_only_with_content_id_witness:
  "encodeURIComponent (js ''notes/a.md'') = Inr (js ''notes%2Fa.md'')
   \<and> requestUrl notFoundHost [] (contentsLookup exampleAPI (js ''notes%2Fa.md''))
     = Response 404 (JObj [(''message'', JStr (js ''Not Found''))])
   \<and> getFileSha notFoundHost exampleAPI (js ''notes/a.md'') []
     = (Inr None, [Http (contentsLookup exampleAPI (js ''notes%2Fa.md''))])
   \<and> deleteFile notFoundHost exampleAPI (js ''notes/a.md'') (js ''remove'') []
     = (Inr True, [Http (contentsLookup exampleAPI (js ''notes%2Fa.md''))])
   \<and> encodeURIComponent [0x61, 0xD800] = Inl URIError
   \<and> getFileSha notFoundHost exampleAPI [0x61, 0xD800] [] = (Inr None, [])
   \<and> deleteFile notFoundHost exampleAPI [0x61, 0xD800] (js ''remove'') [] = (Inr True, [])"
proof -
  have c: "encodeURIComponent (js ''notes/a.md'') = Inr (js ''notes%2Fa.md'')"
    by (simp add: js_def uriUnescaped_def followedBy_def escaped_def utf8_def percentEncode_def
        hexDigit_def isHighSurrogate_def isLowSurrogate_def)
  have r: "requestUrl notFoundHost [] (contentsLookup exampleAPI (js ''notes%2Fa.md''))
     = Response 404 (JObj [(''message'', JStr (js ''Not Found''))])"
    by (simp add: notFoundHost_def)
  have l: "lookups exampleAPI (js ''notes/a.md'')
     = [Http (contentsLookup exampleAPI (js ''notes%2Fa.md''))]"
    unfolding lookups_def c by simp
  have f: "lookupFailed notFoundHost [] exampleAPI (js ''notes/a.md'')"
    unfolding lookupFailed_def c by (simp add: r)
  from deleteFile_only_with_content_id
    [of notFoundHost exampleAPI "js ''notes/a.md''" "[]" "js ''remove''"]
  obtain sha where
    s: "getFileSha notFoundHost exampleAPI (js ''notes/a.md'') []
          = (Inr sha, [] @ lookups exampleAPI (js ''notes/a.md''))"
    and d: "falsy sha \<longrightarrow> deleteFile notFoundHost exampleAPI (js ''notes/a.md'') (js ''remove'') []
          = (Inr True, [] @ lookups exampleAPI (js ''notes/a.md''))"
    and n: "lookupFailed notFoundHost [] exampleAPI (js ''notes/a.md'') \<longrightarrow> sha = None"
    by blast
  from n f have "sha = None" by simp
  with s d l have 1: "getFileSha notFoundHost exampleAPI (js ''notes/a.md'') []
       = (Inr None, [Http (contentsLookup exampleAPI (js ''notes%2Fa.md''))])
     \<and> deleteFile notFoundHost exampleAPI (js ''notes/a.md'') (js ''remove'') []
       = (Inr True, [Http (contentsLookup exampleAPI (js ''notes%2Fa.md''))])"
    by (simp add: falsy_def)
  have c': "encodeURIComponent [0x61, 0xD800] = Inl URIError"
    by (simp add: js_def uriUnescaped_def followedBy_def isHighSurrogate_def isLowSurrogate_def)
  have l': "lookups exampleAPI [0x61, 0xD800] = []"
    unfolding lookups_def c' by simp
  have f': "lookupFailed notFoundHost [] exampleAPI [0x61, 0xD800]"
    unfolding lookupFailed_def c' by simp
  from deleteFile_only_with_content_id
    [of notFoundHost exampleAPI "[0x61, 0xD800]" "[]" "js ''remove''"]
  obtain sha' where
    s': "getFileSha notFoundHost exampleAPI [0x61, 0xD800] []
          = (Inr sha', [] @ lookups exampleAPI [0x61, 0xD800])"
    and d': "falsy sha' \<longrightarrow> deleteFile notFoundHost exampleAPI [0x61, 0xD800] (js ''remove'') []
          = (Inr True, [] @ lookups exampleAPI [0x61, 0xD800])"
    and n': "lookupFailed notFoundHost [] exampleAPI [0x61, 0xD800] \<longrightarrow> sha' = None"
    by blast
  from n' f' have "sha' = None" by simp
  with s' d' l' have 2: "getFileSha notFoundHost exampleAPI [0x61, 0xD800] [] = (Inr None, [])
     \<and> deleteFile notFoundHost exampleAPI [0x61, 0xD800] (js ''remove'') [] = (Inr True, [])"
    by (simp add: falsy_def)
  from c r 1 c' 2 show ?thesis by blast
qed

section \<open>Proofs: getLatestCommitSha\<close>

lemma getLatestCommitSha_failed:
  assumes "(\<exists>e. requestUrl h w (headLookup a) = Rejected e)
           \<or> (\<exists>status j. requestUrl h w (headLookup a) = Response status j \<and> 400 \<le> status)"
  shows "getLatestCommitSha h a w = (Inr None, w @ [Http (headLookup a)])"
proof (cases rule: request_cases [of h a "RefHead (api_branch a)" GET None w])
  case (fails e)
  then show ?thesis by (simp add: getLatestCommitSha_def headLookup_def tryCatch_apply await_apply)
next
  case (ok status j)
  with assms show ?thesis by (auto simp: headLookup_def)
qed

lemma getLatestCommitSha_ok:
  assumes "requestUrl h w (headLookup a) = Response status j" "status < 400"
  shows "getLatestCommitSha h a w
           = (Inr (case getProp2 j ''object'' ''sha'' of Inr v \<Rightarrow> asString v | Inl e \<Rightarrow> None),
              w @ [Http (headLookup a)])"
proof -
  have "request h a (RefHead (api_branch a)) GET None w = (Inr j, w @ [Http (headLookup a)])"
    using request_ok [of h w a "RefHead (api_branch a)" GET None status j] assms
    by (simp add: headLookup_def)
  then show ?thesis
    by (cases "getProp2 j ''object'' ''sha''")
      (simp_all add: getLatestCommitSha_def tryCatch_apply await_apply)
qed

lemma getLatestCommitSha_total:
  "\<exists>r. getLatestCommitSha h a w = (Inr r, w @ [Http (headLookup a)])"
proof (cases rule: request_cases [of h a "RefHead (api_branch a)" GET None w])
  case (fails e)
  then show ?thesis using getLatestCommitSha_failed [of h w a] by (auto simp: headLookup_def)
next
  case (ok status j)
  then show ?thesis using getLatestCommitSha_ok [of h w a status j] by (simp add: headLookup_def)
qed

text \<open>
  Claim C6, as amended. \<open>getLatestCommitSha\<close> makes one GET for the branch ref and never
  throws. It returns the head commit id when the request succeeds (a status below 400)
  with a body whose \<open>object.sha\<close> is that id. It returns \<open>null\<close> whenever the request is
  rejected or answered with a status of 400 or more: that is the case of a branch without
  history (404, or 409 for an empty repository), and of every other failure as well.
\<close>

theorem getLatestCommitSha_head_or_null:
  "\<exists>r. getLatestCommitSha h a w = (Inr r, w @ [Http (headLookup a)])
     \<and> (\<forall>status j commit. requestUrl h w (headLookup a) = Response status j \<and> status < 400
            \<and> getProp2 j ''object'' ''sha'' = Inr (Some (JStr commit)) \<longrightarrow> r = Some commit)
     \<and> (noHistoryReply (requestUrl h w (headLookup a)) \<longrightarrow> r = None)
     \<and> ((\<exists>e. requestUrl h w (headLookup a) = Rejected e)
          \<or> (\<exists>status j. requestUrl h w (headLookup a) = Response status j \<and> 400 \<le> status)
         \<longrightarrow> r = None)"
proof -
  from getLatestCommitSha_total obtain r
    where r: "getLatestCommitSha h a w = (Inr r, w @ [Http (headLookup a)])" by blast
  have 1: "\<forall>status j commit. requestUrl h w (headLookup a) = Response status j \<and> status < 400
            \<and> getProp2 j ''object'' ''sha'' = Inr (Some (JStr commit)) \<longrightarrow> r = Some commit"
  proof (intro allI impI, elim conjE)
    fix status j commit
    assume "requestUrl h w (headLookup a) = Response status j" "status < 400"
      and p: "getProp2 j ''object'' ''sha'' = Inr (Some (JStr commit))"
    from getLatestCommitSha_ok [OF this(1,2)] r p show "r = Some commit"
      by (simp add: asString_def)
  qed
  have 3: "(\<exists>e. requestUrl h w (headLookup a) = Rejected e)
          \<or> (\<exists>status j. requestUrl h w (headLookup a) = Response status j \<and> 400 \<le> status)
         \<longrightarrow> r = None"
  proof
    assume "(\<exists>e. requestUrl h w (headLookup a) = Rejected e)
          \<or> (\<exists>status j. requestUrl h w (headLookup a) = Response status j \<and> 400 \<le> status)"
    from getLatestCommitSha_failed [OF this] r show "r = None" by simp
  qed
  have 2: "noHistoryReply (requestUrl h w (headLookup a)) \<longrightarrow> r = None"
  proof
    assume "noHistoryReply (requestUrl h w (headLookup a))"
    then have "\<exists>status j. requestUrl h w (headLookup a) = Response status j \<and> 400 \<le> status"
      by (auto simp: noHistoryReply_def split: reply.splits)
    with 3 show "r = None" by blast
  qed
  from r 1 2 3 show ?thesis by blast
qed

theorem getLatestCommitSha_head_or_null_witness:
  "getLatestCommitSha
     (answering (Response 200 (JObj [(''object'', JObj [(''sha'', JStr (js ''c0ffee''))])])))
     exampleAPI [] = (Inr (Some (js ''c0ffee'')), [Http (headLookup exampleAPI)])
   \<and> noHistoryReply (Response 409 (JObj [(''message'', JStr (js ''Git Repository is empty.''))]))
   \<and> getLatestCommitSha
     (answering (Response 409 (JObj [(''message'', JStr (js ''Git Repository is empty.''))])))
     exampleAPI [] = (Inr None, [Http (headLookup exampleAPI)])"
proof -
  define ok where "ok = Response 200 (JObj [(''object'', JObj [(''sha'', JStr (js ''c0ffee''))])])"
  define empty where "empty = Response 409 (JObj [(''message'', JStr (js ''Git Repository is empty.''))])"
  have q: "requestUrl (answering x) [] (headLookup exampleAPI) = x" for x
    by (simp add: answering_def)
  have p: "getProp2 (JObj [(''object'', JObj [(''sha'', JStr (js ''c0ffee''))])]) ''object'' ''sha''
             = Inr (Some (JStr (js ''c0ffee'')))"
    by (simp add: getProp2_def getProp_def)
  have n: "noHistoryReply empty" by (simp add: noHistoryReply_def empty_def)
  from getLatestCommitSha_head_or_null [of "answering ok" exampleAPI "[]"] q [of ok] p
  have 1: "getLatestCommitSha (answering ok) exampleAPI []
             = (Inr (Some (js ''c0ffee'')), [Http (headLookup exampleAPI)])"
    by (auto simp: ok_def)
  from getLatestCommitSha_head_or_null [of "answering empty" exampleAPI "[]"] q [of empty] n
  have 2: "getLatestCommitSha (answering empty) exampleAPI []
             = (Inr None, [Http (headLookup exampleAPI)])"
    by auto
  from 1 2 n show ?thesis by (simp add: ok_def empty_def)
qed

text \<open>
  Claim C6 as stated fails: \<open>null\<close> is also the result when the credential is refused
  (401) and when the request never reaches the remote, which say nothing about the
  branch's history.
\<close>

theorem getLatestCommitSha_null_without_empty_branch:
  "\<not> noHistoryReply (Response 401 (JObj [(''message'', JStr (js ''Bad credentials''))]))
   \<and> getLatestCommitSha
       (answering (Response 401 (JObj [(''message'', JStr (js ''Bad credentials''))])))
       exampleAPI [] = (Inr None, [Http (headLookup exampleAPI)])
   \<and> \<not> noHistoryReply (Rejected NonError)
   \<and> getLatestCommitSha (answering (Rejected NonError)) exampleAPI []
       = (Inr None, [Http (headLookup exampleAPI)])"
proof -
  have q: "requestUrl (answering x) [] (headLookup exampleAPI) = x" for x
    by (simp add: answering_def)
  have 1: "getLatestCommitSha
       (answering (Response 401 (JObj [(''message'', JStr (js ''Bad credentials''))])))
       exampleAPI [] = (Inr None, [Http (headLookup exampleAPI)])"
    by (rule getLatestCommitSha_failed [of _ "[]", simplified]) (simp add: q)
  have 2: "getLatestCommitSha (answering (Rejected NonError)) exampleAPI []
       = (Inr None, [Http (headLookup exampleAPI)])"
    by (rule getLatestCommitSha_failed [of _ "[]", simplified]) (simp add: q)
  from 1 2 show ?thesis by (simp add: noHistoryReply_def)
qed

section \<open>Proofs: the loop of batchUpload\<close>

lemma encodeBase64_total: "encodeBase64 content = Inr (base64Of content)"
  unfolding encodeBase64_def base64Of_def
  by (rule atob_btoa(1) [OF fromCharCodes_small])

lemma buildTreeItems_small:
  "length content < 100000 \<Longrightarrow>
     buildTreeItems h a ((p, content) # files) items
       = buildTreeItems h a files (items @ [inlineItem p content])"
  by (simp add: inlineItem_def)

lemma buildTreeItems_large:
  "\<not> length content < 100000 \<Longrightarrow>
     buildTreeItems h a ((p, content) # files) items w =
       (case request h a Blobs POST
               (Some (JObj [(''content'', JStr (base64Of content)), (''encoding'', JStr (js ''base64''))])) w of
          (Inl e, w1) \<Rightarrow> (Inl e, w1)
        | (Inr blobResponse, w1) \<Rightarrow>
            (case getProp blobResponse ''sha'' of
               Inl e \<Rightarrow> (Inl e, w1)
             | Inr sha \<Rightarrow> buildTreeItems h a files (items @ [blobItem p (asString sha)]) w1))"
  by (simp add: encodeBase64_total await_apply blobItem_def split: prod.splits sum.splits)

lemma blobRequests_Nil [simp]: "blobRequests a [] = []"
  by (simp add: blobRequests_def)

lemma blobRequests_small:
  "length content < 100000 \<Longrightarrow> blobRequests a ((p, content) # files) = blobRequests a files"
  by (simp add: blobRequests_def isLarge_def)

lemma blobRequests_large:
  "\<not> length content < 100000 \<Longrightarrow>
     blobRequests a ((p, content) # files) = Http (blobRequest a content) # blobRequests a files"
  by (simp add: blobRequests_def isLarge_def)

lemma buildTreeItems_entries:
  assumes "buildTreeItems h a files items w = (Inr out, w')"
  shows "\<exists>entries. out = items @ entries \<and> length entries = length files
           \<and> (\<forall>i<length files.
                 entryFor h a (w @ blobRequests a (take i files)) (files ! i) (entries ! i))
           \<and> w' = w @ blobRequests a files"
  using assms
proof (induction files arbitrary: items w)
  case Nil
  then show ?case by simp
next
  case (Cons x files)
  obtain p content where x: "x = (p, content)" by (cases x)
  show ?case
  proof (cases "length content < 100000")
    case True
    from Cons.prems have "buildTreeItems h a files (items @ [inlineItem p content]) w = (Inr out, w')"
      unfolding x buildTreeItems_small [OF True] .
    from Cons.IH [OF this] obtain entries where
      e: "out = (items @ [inlineItem p content]) @ entries" "length entries = length files"
        "\<forall>i<length files.
           entryFor h a (w @ blobRequests a (take i files)) (files ! i) (entries ! i)"
        "w' = w @ blobRequests a files"
      by blast
    have e0: "entryFor h a w x (inlineItem p content)" using True by (simp add: entryFor_def x)
    have "\<forall>i<length (x # files).
        entryFor h a (w @ blobRequests a (take i (x # files))) ((x # files) ! i)
          ((inlineItem p content # entries) ! i)"
    proof (intro allI impI)
      fix i
      assume i: "i < length (x # files)"
      show "entryFor h a (w @ blobRequests a (take i (x # files))) ((x # files) ! i)
          ((inlineItem p content # entries) ! i)"
      proof (cases i)
        case 0
        then show ?thesis using e0 by simp
      next
        case (Suc k)
        with i have "k < length files" by simp
        with e(3) have "entryFor h a (w @ blobRequests a (take k files)) (files ! k) (entries ! k)"
          by blast
        then show ?thesis unfolding Suc by (simp add: x blobRequests_small [OF True])
      qed
    qed
    with e have "out = items @ (inlineItem p content # entries)
        \<and> length (inlineItem p content # entries) = length (x # files)
        \<and> (\<forall>i<length (x # files).
              entryFor h a (w @ blobRequests a (take i (x # files))) ((x # files) ! i)
                ((inlineItem p content # entries) ! i))
        \<and> w' = w @ blobRequests a (x # files)"
      by (simp add: x blobRequests_small [OF True])
    then show ?thesis by blast
  next
    case False
    note step = buildTreeItems_large [OF False, of h a p files items w]
    show ?thesis
    proof (cases rule: request_cases [of h a Blobs POST
          "Some (JObj [(''content'', JStr (base64Of content)), (''encoding'', JStr (js ''base64''))])" w])
      case (fails e)
      with Cons.prems step show ?thesis by (simp add: x)
    next
      case (ok status j)
      let ?w1 = "w @ [Http (blobRequest a content)]"
      from ok(1) have r: "request h a Blobs POST
          (Some (JObj [(''content'', JStr (base64Of content)), (''encoding'', JStr (js ''base64''))])) w
          = (Inr j, ?w1)"
        by (simp add: blobRequest_def)
      from ok(2) have a: "requestUrl h w (blobRequest a content) = Response status j"
        by (simp add: blobRequest_def)
      show ?thesis
      proof (cases "getProp j ''sha''")
        case (Inl e)
        with Cons.prems step r show ?thesis by (simp add: x)
      next
        case (Inr sha)
        with Cons.prems step r
        have "buildTreeItems h a files (items @ [blobItem p (asString sha)]) ?w1 = (Inr out, w')"
          by (simp add: x)
        from Cons.IH [OF this] obtain entries where
          e: "out = (items @ [blobItem p (asString sha)]) @ entries" "length entries = length files"
            "\<forall>i<length files.
               entryFor h a (?w1 @ blobRequests a (take i files)) (files ! i) (entries ! i)"
            "w' = ?w1 @ blobRequests a files"
          by blast
        have e0: "entryFor h a w x (blobItem p (asString sha))"
          using False a ok(3) Inr by (simp add: entryFor_def x)
        have "\<forall>i<length (x # files).
            entryFor h a (w @ blobRequests a (take i (x # files))) ((x # files) ! i)
              ((blobItem p (asString sha) # entries) ! i)"
        proof (intro allI impI)
          fix i
          assume i: "i < length (x # files)"
          show "entryFor h a (w @ blobRequests a (take i (x # files))) ((x # files) ! i)
              ((blobItem p (asString sha) # entries) ! i)"
          proof (cases i)
            case 0
            then show ?thesis using e0 by simp
          next
            case (Suc k)
            with i have "k < length files" by simp
            with e(3) have "entryFor h a (?w1 @ blobRequests a (take k files)) (files ! k) (entries ! k)"
              by blast
            then show ?thesis unfolding Suc by (simp add: x blobRequests_large [OF False])
          qed
        qed
        with e have "out = items @ (blobItem p (asString sha) # entries)
            \<and> length (blobItem p (asString sha) # entries) = length (x # files)
            \<and> (\<forall>i<length (x # files).
                  entryFor h a (w @ blobRequests a (take i (x # files))) ((x # files) ! i)
                    ((blobItem p (asString sha) # entries) ! i))
            \<and> w' = w @ blobRequests a (x # files)"
          by (simp add: x blobRequests_large [OF False])
        then show ?thesis by blast
      qed
    qed
  qed
qed

lemma buildTreeItems_all_small:
  "list_all (\<lambda>file. length (snd file) < 100000) files \<Longrightarrow>
     buildTreeItems h a files items w
       = (Inr (items @ map (\<lambda>file. inlineItem (fst file) (snd file)) files), w)"
proof (induction files arbitrary: items)
  case Nil
  show ?case by simp
next
  case (Cons x files)
  obtain p content where x: "x = (p, content)" by (cases x)
  from Cons.prems have s: "length content < 100000" and r: "list_all (\<lambda>file. length (snd file) < 100000) files"
    by (simp_all add: x)
  show ?case unfolding x buildTreeItems_small [OF s] Cons.IH [OF r] by simp
qed

lemma textEncode_euro:
  "textEncode (replicate n 0x20AC) = concat (replicate n [0xE2, 0x82, 0xAC])"
proof (induction n)
  case 0
  show ?case by simp
next
  case (Suc n)
  have u: "utf8 (unat (0x20AC :: code_unit)) = [0xE2, 0x82, 0xAC]"
    by (simp add: utf8_def)
  have s: "\<not> isHighSurrogate 0x20AC" "\<not> isLowSurrogate 0x20AC"
    by (simp_all add: isHighSurrogate_def isLowSurrogate_def)
  show ?case
  proof (cases n)
    case 0
    then show ?thesis using u s by simp
  next
    case (Suc m)
    have "textEncode (0x20AC # 0x20AC # replicate m 0x20AC)
            = utf8 (unat (0x20AC :: code_unit)) @ textEncode (0x20AC # replicate m 0x20AC)"
      using s by simp
    then show ?thesis using Suc.IH u unfolding Suc by simp
  qed
qed

lemma length_textEncode_euro: "length (textEncode (replicate n 0x20AC)) = 3 * n"
  by (simp add: textEncode_euro length_concat sum_list_replicate)

text \<open>
  Claim C7, as amended. When the loop of \<open>batchUpload\<close> completes, it has made one tree
  entry for every file of the list, in order. A file whose content string has fewer than
  100,000 code units (\<open>content.length < 100000\<close>) has its content embedded in its
  entry, with no blob id. For any other file a blob was created first: its blob request
  was made after those of the files before it and was answered with a status below 400,
  and the entry of the file has no content and carries the \<open>sha\<close> of that answer. The
  requests the loop made are exactly these blob requests, in the order of the files.
\<close>

theorem buildTreeItems_threshold:
  assumes "buildTreeItems h a files [] w = (Inr treeItems, w')"
  shows "length treeItems = length files
         \<and> (\<forall>i<length files.
               entryFor h a (w @ blobRequests a (take i files)) (files ! i) (treeItems ! i))
         \<and> w' = w @ blobRequests a files"
  using buildTreeItems_entries [OF assms] by auto

theorem buildTreeItems_threshold_witness:
  "buildTreeItems (answering (Response 201 (JObj [(''sha'', JStr (js ''b10b''))]))) exampleAPI
     [(js ''a.md'', js ''hi''), (js ''big.bin'', replicate 100000 0x41)] [] []
     = (Inr [inlineItem (js ''a.md'') (js ''hi''), blobItem (js ''big.bin'') (Some (js ''b10b''))],
        [Http (blobRequest exampleAPI (replicate 100000 0x41))])
   \<and> entryFor (answering (Response 201 (JObj [(''sha'', JStr (js ''b10b''))]))) exampleAPI []
       (js ''a.md'', js ''hi'') (inlineItem (js ''a.md'') (js ''hi''))
   \<and> entryFor (answering (Response 201 (JObj [(''sha'', JStr (js ''b10b''))]))) exampleAPI []
       (js ''big.bin'', replicate 100000 0x41) (blobItem (js ''big.bin'') (Some (js ''b10b'')))
   \<and> requestUrl (answering (Response 201 (JObj [(''sha'', JStr (js ''b10b''))]))) []
       (blobRequest exampleAPI (replicate 100000 0x41))
       = Response 201 (JObj [(''sha'', JStr (js ''b10b''))])
   \<and> blobRequests exampleAPI [(js ''a.md'', js ''hi''), (js ''big.bin'', replicate 100000 0x41)]
       = [Http (blobRequest exampleAPI (replicate 100000 0x41))]"
proof -
  define host where "host = answering (Response 201 (JObj [(''sha'', JStr (js ''b10b''))]))"
  define big :: jsstring where "big = replicate 100000 0x41"
  have l: "\<not> length big < 100000" "length (js ''hi'') < 100000"
    by (simp_all add: big_def js_def)
  have q: "requestUrl host w r = Response 201 (JObj [(''sha'', JStr (js ''b10b''))])" for w r
    by (simp add: host_def answering_def)
  have r: "request host exampleAPI Blobs POST
      (Some (JObj [(''content'', JStr (base64Of big)), (''encoding'', JStr (js ''base64''))])) w
      = (Inr (JObj [(''sha'', JStr (js ''b10b''))]), w @ [Http (blobRequest exampleAPI big)])" for w
    using request_ok [of host w exampleAPI Blobs POST
        "Some (JObj [(''content'', JStr (base64Of big)), (''encoding'', JStr (js ''base64''))])"
        201 "JObj [(''sha'', JStr (js ''b10b''))]"] q
    by (simp add: blobRequest_def)
  have e: "buildTreeItems host exampleAPI [(js ''a.md'', js ''hi''), (js ''big.bin'', big)] [] []
     = (Inr [inlineItem (js ''a.md'') (js ''hi''), blobItem (js ''big.bin'') (Some (js ''b10b''))],
        [Http (blobRequest exampleAPI big)])"
    unfolding buildTreeItems_small [OF l(2)] buildTreeItems_large [OF l(1)] r
    by (simp add: getProp_def asString_def)
  have s: "blobRequests exampleAPI [(js ''a.md'', js ''hi'')] = []"
    by (simp add: blobRequests_small [OF l(2)])
  have f: "blobRequests exampleAPI [(js ''a.md'', js ''hi''), (js ''big.bin'', big)]
      = [Http (blobRequest exampleAPI big)]"
    by (simp add: blobRequests_small [OF l(2)] blobRequests_large [OF l(1)])
  from buildTreeItems_threshold [OF e]
  have t: "\<forall>i<2. entryFor host exampleAPI
      ([] @ blobRequests exampleAPI (take i [(js ''a.md'', js ''hi''), (js ''big.bin'', big)]))
      ([(js ''a.md'', js ''hi''), (js ''big.bin'', big)] ! i)
      ([inlineItem (js ''a.md'') (js ''hi''), blobItem (js ''big.bin'') (Some (js ''b10b''))] ! i)"
    by simp
  from t [rule_format, of 0]
  have 0: "entryFor host exampleAPI [] (js ''a.md'', js ''hi'') (inlineItem (js ''a.md'') (js ''hi''))"
    by simp
  from t [rule_format, of 1] s
  have 1: "entryFor host exampleAPI [] (js ''big.bin'', big)
      (blobItem (js ''big.bin'') (Some (js ''b10b'')))"
    by simp
  from e 0 1 q [of "[]" "blobRequest exampleAPI big"] f show ?thesis
    unfolding host_def big_def by simp
qed

text \<open>
  Claim C7 as stated fails: the threshold counts the code units of the string, not its
  bytes. A note of 60,000 euro signs is 60,000 code units, that is 120,000 bytes in
  memory (two per code unit) and 180,000 bytes as the client encodes text
  (\<open>TextEncoder\<close>), and its content is embedded all the same.
\<close>

theorem buildTreeItems_inline_over_100000_bytes:
  "length (replicate 60000 (0x20AC :: code_unit)) = 60000
   \<and> 2 * length (replicate 60000 (0x20AC :: code_unit)) = 120000
   \<and> length (textEncode (replicate 60000 0x20AC)) = 180000
   \<and> buildTreeItems notFoundHost exampleAPI [(js ''note.md'', replicate 60000 0x20AC)] [] []
       = (Inr [inlineItem (js ''note.md'') (replicate 60000 0x20AC)], [])"
proof -
  have "list_all (\<lambda>file. length (snd file) < 100000)
          [(js ''note.md'', replicate 60000 (0x20AC :: code_unit))]" by simp
  from buildTreeItems_all_small [OF this, of notFoundHost exampleAPI "[]" "[]"] show ?thesis
    by (simp add: length_textEncode_euro)
qed

section \<open>Proofs: the empty file set\<close>

lemma getTreeSha_trace:
  "\<exists>r. getTreeSha h a c w = (r, w @ [Http (commitLookup a c)])"
proof (cases rule: request_cases [of h a "CommitOf c" GET None w])
  case (fails e)
  then show ?thesis by (simp add: getTreeSha_def commitLookup_def await_apply)
next
  case (ok status j)
  then show ?thesis
    by (cases "getProp2 j ''tree'' ''sha''") (simp_all add: getTreeSha_def commitLookup_def await_apply)
qed

lemma batchUpload_empty_no_head:
  assumes "getLatestCommitSha h a w = (Inr r, w1)" "falsy r"
  shows "batchUpload h a [] msg w = (Inr True, w1)"
  using assms by (simp add: batchUpload_def tryCatch_apply await_apply)

lemma batchUpload_empty_head:
  assumes "getLatestCommitSha h a w = (Inr r, w1)" "\<not> falsy r"
    and "getTreeSha h a (template r) w1 = (t, w2)"
  shows "batchUpload h a [] msg w = (Inr (case t of Inl e \<Rightarrow> False | Inr tree \<Rightarrow> True), w2)"
  using assms by (cases t) (simp_all add: batchUpload_def tryCatch_apply await_apply)

lemma pushBody_empty:
  assumes "ensureRepository h a (w @ [Notice (js ''Pushing to GitHub.'')]) = (Inr True, w1)"
    and "getVaultFiles h s w1 = []"
  shows "pushBody h s a client w = (Inr nothingToPush, w1)"
  using assms by (simp add: pushBody_def await_apply nothingToPush_def)

lemma operation_enter:
  assumes "api svc = Some a" "\<not> isSyncing svc"
  shows "awaited (operation prefix opBody) svc w =
     (case opBody (settings svc) a (Some a) w of
        (Inr result, w') \<Rightarrow> (result, svc \<lparr> isSyncing := False \<rparr>, w')
      | (Inl error, w') \<Rightarrow>
          (failure (errorMessage error), svc \<lparr> isSyncing := False \<rparr>,
           w' @ [Notice (prefix @ errorMessage error)]))"
  using assms by (simp add: awaited_def operation_def split: prod.splits sum.splits)

text \<open>
  Claim C5, as amended. A push on a configured, idle engine whose repository check
  succeeds and whose vault has no eligible file returns the success result with the three
  counters zero, and the events of the push end with the repository check: no request
  of \<open>batchUpload\<close> is made. \<open>batchUpload\<close> with an empty file list makes no write
  request, but it is not immediate: it first looks up the branch head and, when there is
  one, its commit. It returns \<open>true\<close> unless that second lookup fails, and then it
  returns \<open>false\<close>.
\<close>

theorem empty_file_set_no_write:
  "(api svc = Some a \<and> \<not> isSyncing svc
      \<and> ensureRepository h a (w @ [Notice (js ''Pushing to GitHub.'')]) = (Inr True, w1)
      \<and> getVaultFiles h (settings svc) w1 = []
     \<longrightarrow> push h svc w = (nothingToPush, svc \<lparr> isSyncing := False \<rparr>, w1))
   \<and> (\<exists>r. getLatestCommitSha h a w = (Inr r, w @ [Http (headLookup a)])
         \<and> (falsy r \<longrightarrow> batchUpload h a [] msg w = (Inr True, w @ [Http (headLookup a)]))
         \<and> (\<not> falsy r \<longrightarrow>
              (\<exists>t. getTreeSha h a (template r) (w @ [Http (headLookup a)])
                     = (t, w @ [Http (headLookup a), Http (commitLookup a (template r))])
                 \<and> batchUpload h a [] msg w
                     = (Inr (case t of Inl e \<Rightarrow> False | Inr tree \<Rightarrow> True),
                        w @ [Http (headLookup a), Http (commitLookup a (template r))]))))"
proof -
  have 1: "api svc = Some a \<and> \<not> isSyncing svc
      \<and> ensureRepository h a (w @ [Notice (js ''Pushing to GitHub.'')]) = (Inr True, w1)
      \<and> getVaultFiles h (settings svc) w1 = []
     \<longrightarrow> push h svc w = (nothingToPush, svc \<lparr> isSyncing := False \<rparr>, w1)"
  proof (intro impI, elim conjE)
    assume c: "api svc = Some a" "\<not> isSyncing svc"
      and e: "ensureRepository h a (w @ [Notice (js ''Pushing to GitHub.'')]) = (Inr True, w1)"
      and v: "getVaultFiles h (settings svc) w1 = []"
    show "push h svc w = (nothingToPush, svc \<lparr> isSyncing := False \<rparr>, w1)"
      unfolding push_def pushCall_def operation_enter [OF c] pushBody_empty [OF e v] by simp
  qed
  from getLatestCommitSha_total obtain r
    where r: "getLatestCommitSha h a w = (Inr r, w @ [Http (headLookup a)])" by blast
  have 2: "falsy r \<longrightarrow> batchUpload h a [] msg w = (Inr True, w @ [Http (headLookup a)])"
    using batchUpload_empty_no_head [OF r] by simp
  have 3: "\<not> falsy r \<longrightarrow>
              (\<exists>t. getTreeSha h a (template r) (w @ [Http (headLookup a)])
                     = (t, w @ [Http (headLookup a), Http (commitLookup a (template r))])
                 \<and> batchUpload h a [] msg w
                     = (Inr (case t of Inl e \<Rightarrow> False | Inr tree \<Rightarrow> True),
                        w @ [Http (headLookup a), Http (commitLookup a (template r))]))"
  proof
    assume n: "\<not> falsy r"
    from getTreeSha_trace [of h a "template r" "w @ [Http (headLookup a)]"] obtain t
      where t: "getTreeSha h a (template r) (w @ [Http (headLookup a)])
                  = (t, w @ [Http (headLookup a), Http (commitLookup a (template r))])"
      by auto
    from batchUpload_empty_head [OF r n t] t
    show "\<exists>t. getTreeSha h a (template r) (w @ [Http (headLookup a)])
                     = (t, w @ [Http (headLookup a), Http (commitLookup a (template r))])
                 \<and> batchUpload h a [] msg w
                     = (Inr (case t of Inl e \<Rightarrow> False | Inr tree \<Rightarrow> True),
                        w @ [Http (headLookup a), Http (commitLookup a (template r))])"
      by blast
  qed
  from 1 r 2 3 show ?thesis by blast
qed

lemma api_example: "api (newSyncService exampleSettings) = Some exampleAPI"
  by (simp add: newSyncService_def initializeAPI_def exampleSettings_def DEFAULT_SETTINGS_def
      exampleAPI_def js_def)

lemma answering_requestUrl [simp]: "requestUrl (answering x) w r = x"
  by (simp add: answering_def)

lemma answering_getFiles [simp]: "getFiles (answering x) w = []"
  by (simp add: answering_def notFoundHost_def)

lemma ensureRepository_ok:
  assumes "requestUrl h w (requestOf a Repo GET None) = Response status j" "status < 400"
  shows "ensureRepository h a w = (Inr True, w @ [Http (requestOf a Repo GET None)])"
  using request_ok [OF assms] by (simp add: ensureRepository_def tryCatch_apply await_apply)

theorem empty_file_set_no_write_witness:
  "push (answering (Response 200 (JObj []))) (newSyncService exampleSettings) []
     = (nothingToPush, newSyncService exampleSettings,
        [Notice (js ''Pushing to GitHub.''), Http (requestOf exampleAPI Repo GET None)])
   \<and> batchUpload (answering (Response 200 (JObj []))) exampleAPI [] (js ''sync'') []
     = (Inr True, [Http (headLookup exampleAPI)])"
proof -
  define host where "host = answering (Response 200 (JObj []))"
  define svc where "svc = newSyncService exampleSettings"
  have a: "api svc = Some exampleAPI" by (simp add: svc_def api_example)
  have i: "\<not> isSyncing svc" by (simp add: svc_def newSyncService_def)
  have e: "ensureRepository host exampleAPI ([] @ [Notice (js ''Pushing to GitHub.'')])
      = (Inr True, [Notice (js ''Pushing to GitHub.''), Http (requestOf exampleAPI Repo GET None)])"
    using ensureRepository_ok [of host "[Notice (js ''Pushing to GitHub.'')]" exampleAPI 200 "JObj []"]
    by (simp add: host_def)
  have v: "getVaultFiles host (settings svc)
      [Notice (js ''Pushing to GitHub.''), Http (requestOf exampleAPI Repo GET None)] = []"
    by (simp add: getVaultFiles_def host_def)
  have s: "svc \<lparr> isSyncing := False \<rparr> = svc" by (simp add: svc_def newSyncService_def)
  have g: "getLatestCommitSha host exampleAPI [] = (Inr None, [Http (headLookup exampleAPI)])"
    using getLatestCommitSha_ok [of host "[]" exampleAPI 200 "JObj []"]
    by (simp add: host_def getProp2_def getProp_def)
  note T = empty_file_set_no_write [of svc exampleAPI host "[]"
      "[Notice (js ''Pushing to GitHub.''), Http (requestOf exampleAPI Repo GET None)]" "js ''sync''"]
  from T a i e v s have 1: "push host svc []
     = (nothingToPush, svc,
        [Notice (js ''Pushing to GitHub.''), Http (requestOf exampleAPI Repo GET None)])"
    by simp
  from T g have 2: "batchUpload host exampleAPI [] (js ''sync'') []
     = (Inr True, [Http (headLookup exampleAPI)])"
    by (auto simp: falsy_def)
  from 1 2 show ?thesis unfolding host_def svc_def by simp
qed

text \<open>
  Claim C5 as stated fails for \<open>batchUpload\<close>: with an empty file list it still makes
  its two lookups, and when the commit of the branch head cannot be read it returns
  \<open>false\<close>.
\<close>

theorem batchUpload_empty_can_fail:
  "batchUpload brokenCommitHost exampleAPI [] (js ''sync'') []
     = (Inr False, [Http (headLookup exampleAPI), Http (commitLookup exampleAPI (js ''c0ffee''))])"
proof -
  have h: "requestUrl brokenCommitHost [] (headLookup exampleAPI)
      = Response 200 (JObj [(''object'', JObj [(''sha'', JStr (js ''c0ffee''))])])"
    by (simp add: brokenCommitHost_def headLookup_def requestOf_def)
  have g: "getLatestCommitSha brokenCommitHost exampleAPI []
      = (Inr (Some (js ''c0ffee'')), [Http (headLookup exampleAPI)])"
    using getLatestCommitSha_ok [OF h] by (simp add: getProp2_def getProp_def asString_def)
  have n: "\<not> falsy (Some (js ''c0ffee''))" by (simp add: falsy_def js_def)
  have c: "requestUrl brokenCommitHost [Http (headLookup exampleAPI)]
      (requestOf exampleAPI (CommitOf (js ''c0ffee'')) GET None) = Response 500 JNull"
    by (simp add: brokenCommitHost_def requestOf_def)
  have t: "getTreeSha brokenCommitHost exampleAPI (template (Some (js ''c0ffee'')))
      [Http (headLookup exampleAPI)]
      = (Inl (Error (js ''GitHub API Error: '' @ apiErrorMessage 500 JNull)),
         [Http (headLookup exampleAPI), Http (commitLookup exampleAPI (js ''c0ffee''))])"
    using request_error [OF c] by (simp add: getTreeSha_def await_apply template_def commitLookup_def)
  from batchUpload_empty_head [OF g n t] show ?thesis by simp
qed

section \<open>Proofs: the binary wrapper, getFileContent and writeFileContent\<close>

lemma getFileContent_binary:
  assumes "isBinary file"
  shows "getFileContent h file w =
     (case vaultReadBinary h w file of
        Inl e \<Rightarrow> Inl e
      | Inr bytes \<Rightarrow> Inr (binaryWrapper bytes), w @ [Vault (ReadBinary file)])"
  using assms atob_btoa(1) [OF fromCharCodes_small]
  by (simp add: getFileContent_def await_apply vaultReadBytes_def binaryWrapper_def split: sum.splits)

lemma binaryWrapper_markers: "hasBinaryMarkers (binaryWrapper bytes)"
  by (simp add: hasBinaryMarkers_def binaryWrapper_def startsWith_def endsWith_def js_def)

lemma slice_binaryWrapper:
  "slice (binaryWrapper bytes) 8 (- 1) = btoaGroups (map unat (fromCharCodes bytes))"
  by (simp add: slice_def binaryWrapper_def js_def Let_def)

lemma writeFileContent_cases:
  "writeFileContent h p content =
     (if hasBinaryMarkers content
      then (case atob (slice content 8 (- 1)) of
              Inl e \<Rightarrow> reject e
            | Inr binary \<Rightarrow>
                await (ensureFolder h (normalizePath h p))
                  (\<lambda>_. writeBinary h (normalizePath h p) (charCodes binary)))
      else await (ensureFolder h (normalizePath h p))
             (\<lambda>_. writeText h (normalizePath h p) content))"
proof (cases "hasBinaryMarkers content")
  case True
  then have c: "startsWith content (js ''[BINARY:'') \<and> endsWith content (js '']'')"
    by (simp add: hasBinaryMarkers_def)
  show ?thesis
    unfolding writeFileContent_def Let_def if_P [OF c] if_P [OF True]
    by (cases "atob (slice content 8 (- 1))")
      (simp_all add: writeBinary_def await_def reject_def)
next
  case False
  then have c: "\<not> (startsWith content (js ''[BINARY:'') \<and> endsWith content (js '']''))"
    by (simp add: hasBinaryMarkers_def)
  show ?thesis
    unfolding writeFileContent_def Let_def if_not_P [OF c] if_not_P [OF False] writeText_def ..
qed

lemma writeBinary_event:
  "\<exists>r c. writeBinary h q bytes w = (r, w @ [Vault c])
     \<and> (c = CreateBinary q bytes \<or> (\<exists>f. c = ModifyBinary f bytes))"
  by (simp add: writeBinary_def vaultDo_def split: option.splits abstract_file.splits)

lemma writeText_event:
  "\<exists>r c. writeText h q content w = (r, w @ [Vault c])
     \<and> (c = Create q content \<or> (\<exists>f. c = Modify f content))"
  by (simp add: writeText_def vaultDo_def split: option.splits abstract_file.splits)

lemma atob_binaryWrapper:
  "atob (slice (binaryWrapper bytes) 8 (- 1)) = Inr (fromCharCodes bytes)"
  unfolding slice_binaryWrapper by (rule atob_btoa(2) [OF fromCharCodes_small])

text \<open>
  Claim C3. For every byte sequence, the content that \<open>getFileContent\<close> makes from the
  bytes of a binary file (the base64 of the bytes between \<open>[BINARY:\<close> and \<open>]\<close>) is
  decoded by \<open>writeFileContent\<close> to the same bytes: after the parent folder is ensured,
  the one write it makes is a binary write (to the existing file, or of a new one) of
  exactly those bytes.
\<close>

theorem binary_round_trip:
  "(isBinary file \<and> vaultReadBinary h w file = Inr bytes
      \<longrightarrow> getFileContent h file w = (Inr (binaryWrapper bytes), w @ [Vault (ReadBinary file)]))
   \<and> writeFileContent h' p (binaryWrapper bytes)
       = await (ensureFolder h' (normalizePath h' p))
           (\<lambda>_. writeBinary h' (normalizePath h' p) bytes)
   \<and> (\<exists>r c. writeBinary h' q bytes w' = (r, w' @ [Vault c])
         \<and> (c = CreateBinary q bytes \<or> (\<exists>f. c = ModifyBinary f bytes)))"
proof -
  have 1: "isBinary file \<and> vaultReadBinary h w file = Inr bytes
      \<longrightarrow> getFileContent h file w = (Inr (binaryWrapper bytes), w @ [Vault (ReadBinary file)])"
    by (simp add: getFileContent_binary)
  have 2: "writeFileContent h' p (binaryWrapper bytes)
       = await (ensureFolder h' (normalizePath h' p))
           (\<lambda>_. writeBinary h' (normalizePath h' p) bytes)"
    by (simp add: writeFileContent_cases binaryWrapper_markers atob_binaryWrapper
        charCodes_fromCharCodes)
  from 1 2 writeBinary_event [of h' q bytes w'] show ?thesis by blast
qed

lemma binaryWrapper_example: "binaryWrapper [0xFF, 0x00, 0x80] = js ''[BINARY:/wCA]''"
  by code_simp

lemma isBinary_pngFile: "isBinary pngFile"
  by code_simp

lemma ensureFolder_pics:
  "ensureFolder notFoundHost (js ''pics/img.PNG'') [] = (Inr (), [Vault (CreateFolder (js ''pics''))])"
  by (simp add: ensureFolder_def notFoundHost_def js_def vaultDo_def)

theorem binary_round_trip_witness:
  "isBinary pngFile \<and> vaultReadBinary binaryHost [] pngFile = Inr [0xFF, 0x00, 0x80]
   \<and> getFileContent binaryHost pngFile [] = (Inr (js ''[BINARY:/wCA]''), [Vault (ReadBinary pngFile)])
   \<and> writeFileContent notFoundHost (js ''pics/img.PNG'') (js ''[BINARY:/wCA]'') []
       = (Inr (), [Vault (CreateFolder (js ''pics'')),
                   Vault (CreateBinary (js ''pics/img.PNG'') [0xFF, 0x00, 0x80])])"
proof -
  have r: "vaultReadBinary binaryHost [] pngFile = Inr [0xFF, 0x00, 0x80]"
    by (simp add: binaryHost_def)
  have n: "normalizePath notFoundHost p = p" for p by (simp add: notFoundHost_def)
  have w: "writeBinary notFoundHost (js ''pics/img.PNG'') [0xFF, 0x00, 0x80]
             [Vault (CreateFolder (js ''pics''))]
           = (Inr (), [Vault (CreateFolder (js ''pics'')),
                       Vault (CreateBinary (js ''pics/img.PNG'') [0xFF, 0x00, 0x80])])"
    by (simp add: writeBinary_def notFoundHost_def vaultDo_def)
  note T = binary_round_trip [of pngFile binaryHost "[]" "[0xFF, 0x00, 0x80]" notFoundHost
      "js ''pics/img.PNG''" "js ''pics/img.PNG''" "[]", unfolded binaryWrapper_example n]
  from T isBinary_pngFile r have 1: "getFileContent binaryHost pngFile []
      = (Inr (js ''[BINARY:/wCA]''), [Vault (ReadBinary pngFile)])"
    by simp
  from T have "writeFileContent notFoundHost (js ''pics/img.PNG'') (js ''[BINARY:/wCA]'')
       = await (ensureFolder notFoundHost (js ''pics/img.PNG''))
           (\<lambda>_. writeBinary notFoundHost (js ''pics/img.PNG'') [0xFF, 0x00, 0x80])"
    by simp
  then have 2: "writeFileContent notFoundHost (js ''pics/img.PNG'') (js ''[BINARY:/wCA]'') []
       = (Inr (), [Vault (CreateFolder (js ''pics'')),
                   Vault (CreateBinary (js ''pics/img.PNG'') [0xFF, 0x00, 0x80])])"
    by (simp add: await_apply ensureFolder_pics w)
  from isBinary_pngFile r 1 2 show ?thesis by simp
qed

text \<open>
  Claim C10, as amended. \<open>writeFileContent\<close> chooses its path from the content string
  alone, whatever the target path is. Content that starts with \<open>[BINARY:\<close> and ends with
  \<open>]\<close> takes the binary path: the text between the markers is base64-decoded and, when
  the decoding succeeds, the decoded bytes are written with a binary write after the
  parent folder is ensured; when the text is not valid base64 the decoding throws, and
  nothing is written. All other content is written verbatim with a text write.
\<close>

theorem writeFileContent_by_content:
  "(hasBinaryMarkers content \<longrightarrow>
      (\<forall>binary. atob (slice content 8 (- 1)) = Inr binary \<longrightarrow>
         writeFileContent h p content
           = await (ensureFolder h (normalizePath h p))
               (\<lambda>_. writeBinary h (normalizePath h p) (charCodes binary)))
      \<and> (\<forall>e. atob (slice content 8 (- 1)) = Inl e \<longrightarrow>
            writeFileContent h p content w = (Inl e, w)))
   \<and> (\<not> hasBinaryMarkers content \<longrightarrow>
        writeFileContent h p content
          = await (ensureFolder h (normalizePath h p))
              (\<lambda>_. writeText h (normalizePath h p) content))
   \<and> (\<exists>r c. writeBinary h q bytes w = (r, w @ [Vault c])
         \<and> (c = CreateBinary q bytes \<or> (\<exists>f. c = ModifyBinary f bytes)))
   \<and> (\<exists>r c. writeText h q content w = (r, w @ [Vault c])
         \<and> (c = Create q content \<or> (\<exists>f. c = Modify f content)))"
  using writeBinary_event [of h q bytes w] writeText_event [of h q content w]
  by (simp add: writeFileContent_cases)

theorem writeFileContent_by_content_witness:
  "hasBinaryMarkers (js ''[BINARY:TQ==]'')
   \<and> atob (slice (js ''[BINARY:TQ==]'') 8 (- 1)) = Inr (js ''M'')
   \<and> writeFileContent notFoundHost (js ''note.md'') (js ''[BINARY:TQ==]'') []
       = (Inr (), [Vault (CreateBinary (js ''note.md'') [0x4D])])
   \<and> \<not> hasBinaryMarkers (js ''hello'')
   \<and> writeFileContent notFoundHost (js ''img.png'') (js ''hello'') []
       = (Inr (), [Vault (Create (js ''img.png'') (js ''hello''))])"
proof -
  have m: "hasBinaryMarkers (js ''[BINARY:TQ==]'')" "\<not> hasBinaryMarkers (js ''hello'')"
    by code_simp+
  have d: "atob (slice (js ''[BINARY:TQ==]'') 8 (- 1)) = Inr (js ''M'')"
    by code_simp
  have c: "charCodes (js ''M'') = [0x4D]" by (simp add: charCodes_def js_def)
  have n: "normalizePath notFoundHost p = p" for p by (simp add: notFoundHost_def)
  have f: "ensureFolder notFoundHost (js ''note.md'') [] = (Inr (), [])"
    "ensureFolder notFoundHost (js ''img.png'') [] = (Inr (), [])"
    by (simp_all add: ensureFolder_def js_def)
  have b: "writeBinary notFoundHost (js ''note.md'') [0x4D] []
      = (Inr (), [Vault (CreateBinary (js ''note.md'') [0x4D])])"
    by (simp add: writeBinary_def notFoundHost_def vaultDo_def)
  have t: "writeText notFoundHost (js ''img.png'') (js ''hello'') []
      = (Inr (), [Vault (Create (js ''img.png'') (js ''hello''))])"
    by (simp add: writeText_def notFoundHost_def vaultDo_def)
  from writeFileContent_by_content [of "js ''[BINARY:TQ==]''" notFoundHost "js ''note.md''"] m(1) d
  have "writeFileContent notFoundHost (js ''note.md'') (js ''[BINARY:TQ==]'')
      = await (ensureFolder notFoundHost (js ''note.md''))
          (\<lambda>_. writeBinary notFoundHost (js ''note.md'') [0x4D])"
    by (simp add: n c)
  then have 1: "writeFileContent notFoundHost (js ''note.md'') (js ''[BINARY:TQ==]'') []
       = (Inr (), [Vault (CreateBinary (js ''note.md'') [0x4D])])"
    by (simp add: await_apply f b)
  from writeFileContent_by_content [of "js ''hello''" notFoundHost "js ''img.png''"] m(2)
  have "writeFileContent notFoundHost (js ''img.png'') (js ''hello'')
      = await (ensureFolder notFoundHost (js ''img.png''))
          (\<lambda>_. writeText notFoundHost (js ''img.png'') (js ''hello''))"
    by (simp add: n)
  then have 2: "writeFileContent notFoundHost (js ''img.png'') (js ''hello'') []
       = (Inr (), [Vault (Create (js ''img.png'') (js ''hello''))])"
    by (simp add: await_apply f t)
  from m d 1 2 show ?thesis by simp
qed

text \<open>
  Claim C10 as stated fails: a note whose text happens to carry the markers around
  something that is not base64 is not written at all.
\<close>

theorem writeFileContent_markers_without_base64:
  "hasBinaryMarkers (js ''[BINARY: see attachment]'')
   \<and> writeFileContent notFoundHost (js ''note.md'') (js ''[BINARY: see attachment]'') []
       = (Inl InvalidCharacterError, [])"
proof -
  have m: "hasBinaryMarkers (js ''[BINARY: see attachment]'')" by code_simp
  have d: "atob (slice (js ''[BINARY: see attachment]'') 8 (- 1)) = Inl InvalidCharacterError"
    by code_simp
  show ?thesis using m d by (simp add: writeFileContent_cases)
qed

section \<open>Proofs: results and the busy flag\<close>

lemma yields_resolve: "P x \<Longrightarrow> yields P (resolve x)"
  by (simp add: yields_def)

lemma yields_reject: "yields P (reject e)"
  by (simp add: yields_def)

lemma yields_await: "(\<And>x. yields P (f x)) \<Longrightarrow> yields P (await m f)"
  by (auto simp: yields_def await_apply split: prod.splits sum.splits)

lemma yields_if: "(c \<Longrightarrow> yields P m) \<Longrightarrow> (\<not> c \<Longrightarrow> yields P n) \<Longrightarrow> yields P (if c then m else n)"
  by simp

lemma yieldsD: "yields P m \<Longrightarrow> m w = (Inr x, w') \<Longrightarrow> P x"
  by (auto simp: yields_def)

lemma pushBody_good: "yields goodResult (pushBody h s a client)"
  unfolding yields_def
  by (auto simp: pushBody_def await_apply goodResult_def split: prod.splits sum.splits if_splits)

lemma pullBody_good: "yields goodResult (pullBody h s a client)"
  unfolding yields_def
  by (auto simp: pullBody_def await_apply goodResult_def split: prod.splits sum.splits if_splits)

lemma syncBody_good: "yields goodResult (syncBody h s a client)"
  unfolding yields_def
  by (auto simp: syncBody_def Let_def await_apply goodResult_def
      split: prod.splits sum.splits if_splits)

lemma operation_busy:
  assumes "isSyncing svc"
  shows "operation prefix opBody svc
     = (Settled (failure (if api svc = None then js ''GitHub not configured''
                          else js ''Sync already in progress'')), svc)"
  using assms by (cases "api svc") (simp_all add: operation_def)

lemma operation_Pending:
  assumes "operation prefix opBody svc = (Pending rest, svc')"
  shows "\<not> isSyncing svc \<and> svc' = svc \<lparr> isSyncing := True \<rparr>
         \<and> (\<forall>self w. fst (snd (rest self w)) = self \<lparr> isSyncing := False \<rparr>)"
proof (cases "api svc")
  case None
  with assms show ?thesis by (simp add: operation_def)
next
  case (Some a)
  show ?thesis
  proof (cases "isSyncing svc")
    case True
    with Some assms show ?thesis by (simp add: operation_def)
  next
    case False
    with Some assms have r: "rest = (\<lambda>self w.
        case opBody (settings self) a (api self) w of
          (Inr result, w') \<Rightarrow> (result, self \<lparr> isSyncing := False \<rparr>, w')
        | (Inl error, w') \<Rightarrow>
            (failure (errorMessage error), self \<lparr> isSyncing := False \<rparr>,
             snd (notice (prefix @ errorMessage error) w')))"
      and s: "svc' = svc \<lparr> isSyncing := True \<rparr>"
      by (simp_all add: operation_def)
    have "\<forall>self w. fst (snd (rest self w)) = self \<lparr> isSyncing := False \<rparr>"
      unfolding r by (simp split: prod.splits sum.splits)
    with False s show ?thesis by simp
  qed
qed

lemma operation_Settled:
  assumes "operation prefix opBody svc = (Settled r, svc')"
  shows "svc' = svc"
  using assms by (auto simp: operation_def split: option.splits if_splits)

lemma operation_result:
  assumes "\<And>s a client. yields goodResult (opBody s a client)"
    and "awaited (operation prefix opBody) svc w = (r, svc', w')"
  shows "filesDeleted r = 0 \<and> (\<not> success r \<longrightarrow> filesUploaded r = 0 \<and> filesDownloaded r = 0)"
proof (cases "api svc")
  case None
  with assms(2) show ?thesis by (auto simp: awaited_def operation_def failure_def)
next
  case (Some a)
  show ?thesis
  proof (cases "isSyncing svc")
    case True
    with Some assms(2) show ?thesis by (auto simp: awaited_def operation_def failure_def)
  next
    case False
    obtain x w1 where b: "opBody (settings svc) a (Some a) w = (x, w1)"
      by (cases "opBody (settings svc) a (Some a) w")
    show ?thesis
    proof (cases x)
      case (Inl e)
      with assms(2) b show ?thesis
        by (auto simp: operation_enter [OF Some False] failure_def)
    next
      case (Inr res)
      with assms(2) b have "r = res" by (simp add: operation_enter [OF Some False])
      moreover from yieldsD [OF assms(1) b [unfolded Inr]] have "goodResult res" .
      ultimately show ?thesis by (simp add: goodResult_def)
    qed
  qed
qed

text \<open>
  Claim C8. Every result returned by \<open>push\<close>, \<open>pull\<close> or \<open>sync\<close> has \<open>filesDeleted\<close>
  zero, and a result that is not a success has \<open>filesUploaded\<close> and \<open>filesDownloaded\<close>
  zero as well.
\<close>

theorem results_never_count_deletions:
  assumes "op = push h \<or> op = pull h \<or> op = sync h"
    and "op svc w = (r, svc', w')"
  shows "filesDeleted r = 0
         \<and> (\<not> success r \<longrightarrow> filesUploaded r = 0 \<and> filesDownloaded r = 0 \<and> filesDeleted r = 0)"
proof -
  from assms obtain prefix opBody where
    o: "awaited (operation prefix opBody) svc w = (r, svc', w')"
    and b: "opBody = pushBody h \<or> opBody = pullBody h \<or> opBody = syncBody h"
    by (auto simp: push_def pull_def sync_def pushCall_def pullCall_def syncCall_def)
  from b have "\<And>s a client. yields goodResult (opBody s a client)"
    using pushBody_good pullBody_good syncBody_good by auto
  from operation_result [OF this o] show ?thesis by simp
qed

lemma awaited_busy:
  assumes "isSyncing svc"
  shows "awaited (operation prefix opBody) svc w
     = (failure (if api svc = None then js ''GitHub not configured''
                 else js ''Sync already in progress''), svc, w)"
  by (simp add: awaited_def operation_busy [OF assms])

lemma awaited_idle_after:
  assumes "\<not> isSyncing svc"
  shows "fst (snd (awaited (operation prefix opBody) svc w)) = svc"
proof (cases "api svc")
  case None
  then show ?thesis by (simp add: awaited_def operation_def)
next
  case (Some a)
  have "svc \<lparr> isSyncing := False \<rparr> = svc" using assms by simp
  then show ?thesis
    by (simp add: operation_enter [OF Some assms] split: prod.splits sum.splits)
qed

lemma push_notFound:
  "push notFoundHost idleService []
     = (failure (js ''Could not access or create repository''), idleService,
        [Notice (js ''Pushing to GitHub.''),
         Http (requestOf exampleAPI Repo GET None),
         Http (requestOf exampleAPI UserRepos POST
                 (Some (JObj [(''name'', JStr (js ''vault'')), (''private'', JBool True),
                              (''auto_init'', JBool True),
                              (''description'', JStr (js ''Obsidian vault sync repository''))]))),
         Notice (js ''GitSync: Push failed - Could not access or create repository'')])"
  by code_simp

lemma pull_empty_remote:
  "pull (answering (Response 200 (JObj []))) idleService []
     = (\<lparr> success = True, message = js ''Successfully pulled 0 files'', filesUploaded = 0,
          filesDownloaded = 0, filesDeleted = 0 \<rparr>, idleService,
        [Notice (js ''Pulling from GitHub.''), Http (headLookup exampleAPI),
         Notice (js ''GitSync: Pulled 0 files from GitHub'')])"
  by code_simp

theorem results_never_count_deletions_witness:
  "push notFoundHost idleService []
     = (failure (js ''Could not access or create repository''), idleService,
        [Notice (js ''Pushing to GitHub.''),
         Http (requestOf exampleAPI Repo GET None),
         Http (requestOf exampleAPI UserRepos POST
                 (Some (JObj [(''name'', JStr (js ''vault'')), (''private'', JBool True),
                              (''auto_init'', JBool True),
                              (''description'', JStr (js ''Obsidian vault sync repository''))]))),
         Notice (js ''GitSync: Push failed - Could not access or create repository'')])
   \<and> \<not> success (failure (js ''Could not access or create repository''))
   \<and> filesUploaded (failure (js ''Could not access or create repository'')) = 0
   \<and> filesDownloaded (failure (js ''Could not access or create repository'')) = 0
   \<and> filesDeleted (failure (js ''Could not access or create repository'')) = 0
   \<and> filesDeleted (fst (pull (answering (Response 200 (JObj []))) idleService [])) = 0"
proof -
  have s: "\<not> success (failure (js ''Could not access or create repository''))"
    by (simp add: failure_def)
  from results_never_count_deletions [of "push notFoundHost" notFoundHost, OF _ push_notFound] s
  have 1: "filesUploaded (failure (js ''Could not access or create repository'')) = 0
   \<and> filesDownloaded (failure (js ''Could not access or create repository'')) = 0
   \<and> filesDeleted (failure (js ''Could not access or create repository'')) = 0"
    by simp
  from results_never_count_deletions
    [of "pull (answering (Response 200 (JObj [])))" "answering (Response 200 (JObj []))",
     OF _ pull_empty_remote]
  have 2: "filesDeleted (fst (pull (answering (Response 200 (JObj []))) idleService [])) = 0"
    by (simp add: pull_empty_remote)
  from push_notFound s 1 2 show ?thesis by simp
qed

lemma reachable_flag:
  assumes "\<forall>call\<in>calls. \<exists>prefix opBody. call = operation prefix opBody"
  shows "reachable calls e \<Longrightarrow>
     (pending e = [] \<and> \<not> isSyncing (shared e))
     \<or> (\<exists>rest. pending e = [rest] \<and> isSyncing (shared e)
              \<and> (\<forall>self w. fst (snd (rest self w)) = self \<lparr> isSyncing := False \<rparr>))"
proof (induction rule: reachable.induct)
  case (created s w)
  show ?case by (simp add: newSyncService_def)
next
  case (settled e call r svc)
  from assms settled.hyps(2) obtain prefix opBody where "call = operation prefix opBody" by blast
  with settled.hyps(3) have "svc = shared e" using operation_Settled by blast
  with settled.IH show ?case by simp
next
  case (suspended e call rest svc)
  from assms suspended.hyps(2) obtain prefix opBody where "call = operation prefix opBody" by blast
  with suspended.hyps(3) operation_Pending [of prefix opBody "shared e" rest svc]
  have p: "\<not> isSyncing (shared e)" "svc = shared e \<lparr> isSyncing := True \<rparr>"
    "\<forall>self w. fst (snd (rest self w)) = self \<lparr> isSyncing := False \<rparr>"
    by simp_all
  from suspended.IH p(1) have "pending e = []" by auto
  with p show ?case by simp
next
  case (resumed e earlier rest later r svc w)
  from resumed.IH resumed.hyps(2) obtain rest' where
    i: "pending e = [rest']" "\<forall>self w. fst (snd (rest' self w)) = self \<lparr> isSyncing := False \<rparr>"
    by auto
  from i(1) resumed.hyps(2) have l: "earlier = []" "later = []" "rest = rest'"
    by (auto simp: append_eq_Cons_conv)
  from i(2) l(3) resumed.hyps(3) have "svc = shared e \<lparr> isSyncing := False \<rparr>"
    by (metis fst_conv snd_conv)
  with l show ?case by simp
next
  case (updated e s)
  then show ?case by (simp add: updateSettings_def)
qed

lemma calls_operations:
  "\<forall>call\<in>{pushCall h, pullCall h, syncCall h}. \<exists>prefix opBody. call = operation prefix opBody"
  by (auto simp: pushCall_def pullCall_def syncCall_def)

lemma pushCall_idle: "\<exists>rest. pushCall h idleService = (Pending rest, busyService)"
proof -
  have a: "api idleService = Some exampleAPI" by (simp add: idleService_def api_example)
  have i: "\<not> isSyncing idleService" by (simp add: idleService_def newSyncService_def)
  show ?thesis by (simp add: pushCall_def operation_def a i busyService_def)
qed

lemma busy_reachable:
  "reachable {pushCall h, pullCall h, syncCall h}
     \<lparr> shared = busyService, pending = resumption (pushCall h) idleService, history = [] \<rparr>"
proof -
  from pushCall_idle obtain rest where r: "pushCall h idleService = (Pending rest, busyService)"
    by blast
  then have p: "resumption (pushCall h) idleService = [rest]" by (simp add: resumption_def)
  have "reachable {pushCall h, pullCall h, syncCall h}
      \<lparr> shared = idleService, pending = [], history = [] \<rparr>"
    unfolding idleService_def by (rule reachable.created)
  from reachable.suspended [OF this, of "pushCall h" rest busyService] r
  show ?thesis by (simp add: p)
qed

text \<open>
  Claim C2, as amended. The engine's state is its \<open>isSyncing\<close> flag: an operation sets it
  before its first \<open>await\<close> and clears it in \<open>finally\<close>. However the calls of \<open>push\<close>,
  \<open>pull\<close> and \<open>sync\<close>, the changes of settings and the resumptions of pending operations
  follow one another, at most one operation is pending, and the flag is set exactly then.
  A call that finds the flag set is settled at once with a failure and leaves the engine
  and the events as they are: it makes no request, reads and writes nothing, and does not
  clear the flag of the operation that is pending. The failure is the busy one when the
  engine is configured, and \<open>GitHub not configured\<close> when it is not: that check comes
  first. An operation that is left pending has set the flag, and its resumption clears
  it, whatever its body did: returned a success, returned a failure or threw. So a call
  that is awaited on an idle engine leaves it idle.
\<close>

theorem one_operation_at_a_time:
  assumes "(call, op) \<in> {(pushCall h, push h), (pullCall h, pull h), (syncCall h, sync h)}"
  shows "(reachable {pushCall h, pullCall h, syncCall h} e \<longrightarrow>
            length (pending e) \<le> 1 \<and> (isSyncing (shared e) \<longleftrightarrow> length (pending e) = 1))
         \<and> op = awaited call
         \<and> (isSyncing svc \<longrightarrow>
              call svc = (Settled (failure (if api svc = None then js ''GitHub not configured''
                                            else js ''Sync already in progress'')), svc)
              \<and> op svc w = (failure (if api svc = None then js ''GitHub not configured''
                                      else js ''Sync already in progress''), svc, w))
         \<and> (\<forall>rest svc'. call svc = (Pending rest, svc') \<longrightarrow>
              \<not> isSyncing svc \<and> isSyncing svc'
              \<and> (\<forall>self w'. fst (snd (rest self w')) = self \<lparr> isSyncing := False \<rparr>))
         \<and> (\<not> isSyncing svc \<longrightarrow> fst (snd (op svc w)) = svc)"
proof -
  from assms obtain prefix opBody where c: "call = operation prefix opBody" and o: "op = awaited call"
    by (auto simp: push_def pull_def sync_def pushCall_def pullCall_def syncCall_def)
  have 1: "reachable {pushCall h, pullCall h, syncCall h} e \<longrightarrow>
            length (pending e) \<le> 1 \<and> (isSyncing (shared e) \<longleftrightarrow> length (pending e) = 1)"
    using reachable_flag [OF calls_operations, of h e] by auto
  have 2: "isSyncing svc \<longrightarrow>
              call svc = (Settled (failure (if api svc = None then js ''GitHub not configured''
                                            else js ''Sync already in progress'')), svc)
              \<and> op svc w = (failure (if api svc = None then js ''GitHub not configured''
                                      else js ''Sync already in progress''), svc, w)"
    unfolding o c using operation_busy [of svc prefix opBody] awaited_busy [of svc prefix opBody w]
    by simp
  have 3: "\<forall>rest svc'. call svc = (Pending rest, svc') \<longrightarrow>
              \<not> isSyncing svc \<and> isSyncing svc'
              \<and> (\<forall>self w'. fst (snd (rest self w')) = self \<lparr> isSyncing := False \<rparr>)"
  proof (intro allI impI)
    fix rest svc'
    assume "call svc = (Pending rest, svc')"
    from operation_Pending [OF this [unfolded c]]
    show "\<not> isSyncing svc \<and> isSyncing svc'
              \<and> (\<forall>self w'. fst (snd (rest self w')) = self \<lparr> isSyncing := False \<rparr>)"
      by simp
  qed
  have 4: "\<not> isSyncing svc \<longrightarrow> fst (snd (op svc w)) = svc"
    unfolding o c using awaited_idle_after [of svc prefix opBody w] by simp
  from 1 o 2 3 4 show ?thesis by blast
qed

theorem one_operation_at_a_time_witness:
  "reachable {pushCall notFoundHost, pullCall notFoundHost, syncCall notFoundHost}
     \<lparr> shared = busyService, pending = resumption (pushCall notFoundHost) idleService,
       history = [] \<rparr>
   \<and> length (resumption (pushCall notFoundHost) idleService) = 1
   \<and> isSyncing busyService \<and> api busyService \<noteq> None
   \<and> syncCall notFoundHost busyService
       = (Settled (failure (js ''Sync already in progress'')), busyService)
   \<and> sync notFoundHost busyService [] = (failure (js ''Sync already in progress''), busyService, [])
   \<and> \<not> isSyncing idleService
   \<and> fst (push notFoundHost idleService []) = failure (js ''Could not access or create repository'')
   \<and> fst (snd (push notFoundHost idleService [])) = idleService
   \<and> fst (snd (pull (answering (Response 200 (JObj []))) idleService [])) = idleService"
proof -
  have b: "isSyncing busyService" "api busyService \<noteq> None"
    by (simp_all add: busyService_def idleService_def api_example)
  have i: "\<not> isSyncing idleService" by (simp add: idleService_def newSyncService_def)
  note e = busy_reachable [of notFoundHost]
  note T = one_operation_at_a_time [of "syncCall notFoundHost" "sync notFoundHost" notFoundHost
      "\<lparr> shared = busyService, pending = resumption (pushCall notFoundHost) idleService,
         history = [] \<rparr>" busyService "[]"]
  from T e have "isSyncing busyService \<longleftrightarrow> length (resumption (pushCall notFoundHost) idleService) = 1"
    by simp
  with b have 0: "length (resumption (pushCall notFoundHost) idleService) = 1"
    by simp
  from T b(1) have "syncCall notFoundHost busyService
       = (Settled (failure (if api busyService = None then js ''GitHub not configured''
                            else js ''Sync already in progress'')), busyService)
     \<and> sync notFoundHost busyService []
       = (failure (if api busyService = None then js ''GitHub not configured''
                   else js ''Sync already in progress''), busyService, [])"
    by blast
  moreover have "api busyService = Some exampleAPI"
    by (simp add: busyService_def idleService_def api_example)
  ultimately have 1: "syncCall notFoundHost busyService
       = (Settled (failure (js ''Sync already in progress'')), busyService)
     \<and> sync notFoundHost busyService [] = (failure (js ''Sync already in progress''), busyService, [])"
    by simp
  from one_operation_at_a_time [of "pushCall notFoundHost" "push notFoundHost" notFoundHost _
      idleService "[]"] i
  have 2: "fst (snd (push notFoundHost idleService [])) = idleService"
    by blast
  from one_operation_at_a_time
    [of "pullCall (answering (Response 200 (JObj [])))" "pull (answering (Response 200 (JObj [])))"
        "answering (Response 200 (JObj []))" _ idleService "[]"] i
  have 3: "fst (snd (pull (answering (Response 200 (JObj []))) idleService [])) = idleService"
    by blast
  from e 0 b 1 i 2 3 show ?thesis by (simp add: push_notFound)
qed

text \<open>
  Claim C2 as stated fails in the failure it names. While a push is pending, the settings
  tab saves settings without an account: the engine is still in the middle of the push
  (the flag is set, one operation is pending), and a call of \<open>sync\<close> is refused without
  any event, but with \<open>GitHub not configured\<close>, not with the busy failure.
\<close>

theorem busy_engine_answers_not_configured:
  "reachable {pushCall notFoundHost, pullCall notFoundHost, syncCall notFoundHost}
     \<lparr> shared = clearedService, pending = resumption (pushCall notFoundHost) idleService,
       history = [] \<rparr>
   \<and> length (resumption (pushCall notFoundHost) idleService) = 1
   \<and> isSyncing clearedService
   \<and> sync notFoundHost clearedService [] = (failure (js ''GitHub not configured''), clearedService, [])
   \<and> message (fst (sync notFoundHost clearedService [])) \<noteq> js ''Sync already in progress''"
proof -
  from reachable.updated [OF busy_reachable [of notFoundHost], of DEFAULT_SETTINGS]
  have 1: "reachable {pushCall notFoundHost, pullCall notFoundHost, syncCall notFoundHost}
     \<lparr> shared = clearedService, pending = resumption (pushCall notFoundHost) idleService,
       history = [] \<rparr>"
    by (simp add: clearedService_def)
  from pushCall_idle [of notFoundHost]
  have 2: "length (resumption (pushCall notFoundHost) idleService) = 1"
    by (auto simp: resumption_def)
  have 3: "isSyncing clearedService"
    by (simp add: clearedService_def updateSettings_def busyService_def)
  have a: "api clearedService = None"
    by (simp add: clearedService_def updateSettings_def initializeAPI_def DEFAULT_SETTINGS_def)
  have 4: "sync notFoundHost clearedService []
      = (failure (js ''GitHub not configured''), clearedService, [])"
    by (simp add: sync_def syncCall_def awaited_def operation_def a)
  have 5: "js ''GitHub not configured'' \<noteq> js ''Sync already in progress''"
    by (simp add: js_def)
  from 1 2 3 4 5 show ?thesis by (simp add: failure_def)
qed

section \<open>Proofs: exclusion rules in sync\<close>

text \<open>
  Claim C1 fails for \<open>sync\<close>. With the default exclusion of files named \<open>.DS_Store\<close>,
  a remote \<open>.DS_Store\<close> is skipped by \<open>pull\<close>, but \<open>sync\<close> fetches it and creates it
  in the vault: its download loop tests the excluded folders only.
\<close>

theorem sync_downloads_excluded_file:
  "list_ex (\<lambda>excludedFile. endsWith (js ''.DS_Store'') excludedFile) (excludedFiles exampleSettings)
   \<and> sync remoteHost idleService []
     = (\<lparr> success = True, message = js ''Sync complete: 0 uploaded, 1 downloaded'',
          filesUploaded = 0, filesDownloaded = 1, filesDeleted = 0 \<rparr>, idleService,
        [Notice (js ''Starting sync.''),
         Http (requestOf exampleAPI Repo GET None),
         Http (headLookup exampleAPI),
         Http (commitLookup exampleAPI (js ''c0ffee'')),
         Http (requestOf exampleAPI (TreeRecursive (js ''7ree'')) GET None),
         Http (contentsLookup exampleAPI (js ''.DS_Store'')),
         Vault (Create (js ''.DS_Store'') [0]),
         Notice (js ''GitSync: Synced 0 up, 1 down'')])
   \<and> pull remoteHost idleService []
     = (\<lparr> success = True, message = js ''Successfully pulled 0 files'',
          filesUploaded = 0, filesDownloaded = 0, filesDeleted = 0 \<rparr>, idleService,
        [Notice (js ''Pulling from GitHub.''),
         Http (headLookup exampleAPI),
         Http (commitLookup exampleAPI (js ''c0ffee'')),
         Http (requestOf exampleAPI (TreeRecursive (js ''7ree'')) GET None),
         Notice (js ''GitSync: Pulled 0 files from GitHub'')])"
  by code_simp

section \<open>Proofs: exclusion rules in push and pull\<close>

text \<open>
  The part of claim C1 that holds, for every configuration of the two rules: the files
  \<open>push\<close> and \<open>sync\<close> read for upload, and the paths \<open>pull\<close> fetches, are covered by
  neither rule; the paths \<open>sync\<close> fetches are under no excluded folder (and not in the
  vault's upload set). A download is the content request for the path as
  \<open>encodeURIComponent\<close> has written it; the loops are taken with the client in place.
\<close>

lemma getVaultFiles_not_excluded:
  "file \<in> set (getVaultFiles h s w) \<Longrightarrow> \<not> excludedPath h s (path file)"
  by (auto simp: getVaultFiles_def excludedPath_def list_ex_iff)

lemma readFiles_paths:
  "readFiles h files filesToUpload w = (Inr out, w') \<Longrightarrow>
     map fst out = map fst filesToUpload @ map path files"
proof (induction files arbitrary: filesToUpload w)
  case Nil
  then show ?case by simp
next
  case (Cons x files)
  from Cons.prems obtain content w1 where
    c: "getFileContent h x w = (Inr content, w1)"
    and r: "readFiles h files (filesToUpload @ [(path x, content)]) w1 = (Inr out, w')"
    by (auto simp: await_apply split: prod.splits sum.splits)
  from Cons.IH [OF r] show ?case by simp
qed

lemma push_uploads_no_excluded_path:
  assumes "readFiles h (getVaultFiles h s w) [] w = (Inr filesToUpload, w')"
    and "(p, content) \<in> set filesToUpload"
  shows "\<not> excludedPath h s p"
proof -
  from readFiles_paths [OF assms(1)] have "map fst filesToUpload = map path (getVaultFiles h s w)"
    by simp
  moreover from assms(2) have "p \<in> set (map fst filesToUpload)" by force
  ultimately obtain f where "f \<in> set (getVaultFiles h s w)" "path f = p" by auto
  with getVaultFiles_not_excluded show ?thesis by blast
qed

lemma onClient_Some [simp]: "onClient (Some a) call = call a"
  by (simp add: onClient_def)

lemma api_getFileContent_trace:
  "\<exists>r. api_getFileContent h a p w = (Inr r, w @ lookups a p)"
proof (cases "encodeURIComponent p")
  case (Inl e)
  then show ?thesis
    by (simp add: api_getFileContent_def lookups_def tryCatch_apply await_apply)
next
  case (Inr encoded)
  show ?thesis
  proof (cases rule: request_cases [of h a "Contents encoded (Some (api_branch a))" GET None w])
    case (fails e)
    then show ?thesis
      using Inr
      by (simp add: api_getFileContent_def lookups_def contentsLookup_def tryCatch_apply await_apply)
  next
    case (ok status j)
    then show ?thesis
      using Inr
      by (auto simp: api_getFileContent_def lookups_def contentsLookup_def tryCatch_apply
          await_apply lift_apply split: prod.splits sum.splits)
  qed
qed

lemma lookups_origin:
  "Http (contentsLookup a encoded) \<in> set (lookups a p) \<Longrightarrow> encodeURIComponent p = Inr encoded"
  by (auto simp: lookups_def contentsLookup_def requestOf_def split: sum.splits)

lemma ensureFolder_trace:
  "\<exists>r evs. ensureFolder h p w = (r, w @ evs) \<and> (\<forall>req. Http req \<notin> set evs)"
proof (cases "(case lastIndexOf p 0x2F of None \<Rightarrow> [] | Some i \<Rightarrow> take i p) \<noteq> []
    \<and> getAbstractFileByPath h w (case lastIndexOf p 0x2F of None \<Rightarrow> [] | Some i \<Rightarrow> take i p) = None")
  case True
  then have "ensureFolder h p w
      = vaultDo h (CreateFolder (case lastIndexOf p 0x2F of None \<Rightarrow> [] | Some i \<Rightarrow> take i p)) w"
    by (simp add: ensureFolder_def Let_def)
  then have "\<exists>r c. ensureFolder h p w = (r, w @ [Vault c])" by (simp add: vaultDo_def)
  then obtain r c where "ensureFolder h p w = (r, w @ [Vault c])" by blast
  moreover have "\<forall>req. Http req \<notin> set [Vault c]" by simp
  ultimately show ?thesis by blast
next
  case False
  then have "ensureFolder h p w = (Inr (), w @ [])" by (auto simp: ensureFolder_def Let_def)
  then show ?thesis by force
qed

lemma await_trace:
  assumes m: "\<And>w. \<exists>r evs. m w = (r, w @ evs) \<and> (\<forall>req. Http req \<notin> set evs)"
    and f: "\<And>x w. \<exists>r evs. f x w = (r, w @ evs) \<and> (\<forall>req. Http req \<notin> set evs)"
  shows "\<exists>r evs. await m f w = (r, w @ evs) \<and> (\<forall>req. Http req \<notin> set evs)"
proof -
  from m obtain r evs where 1: "m w = (r, w @ evs)" "\<forall>req. Http req \<notin> set evs" by blast
  show ?thesis
  proof (cases r)
    case (Inl e)
    with 1 have "await m f w = (Inl e, w @ evs)" by (simp add: await_apply)
    with 1(2) show ?thesis by blast
  next
    case (Inr x)
    from f [of x "w @ evs"] obtain r' evs' where
      2: "f x (w @ evs) = (r', (w @ evs) @ evs')" "\<forall>req. Http req \<notin> set evs'" by blast
    from 1 Inr 2 have "await m f w = (r', w @ (evs @ evs'))" by (simp add: await_apply)
    moreover have "\<forall>req. Http req \<notin> set (evs @ evs')" using 1(2) 2(2) by simp
    ultimately show ?thesis by blast
  qed
qed

lemma writeBinary_trace:
  "\<exists>r evs. writeBinary h q bytes w = (r, w @ evs) \<and> (\<forall>req. Http req \<notin> set evs)"
proof -
  from writeBinary_event [of h q bytes w] obtain r c
    where "writeBinary h q bytes w = (r, w @ [Vault c])" by blast
  moreover have "\<forall>req. Http req \<notin> set [Vault c]" by simp
  ultimately show ?thesis by blast
qed

lemma writeText_trace:
  "\<exists>r evs. writeText h q content w = (r, w @ evs) \<and> (\<forall>req. Http req \<notin> set evs)"
proof -
  from writeText_event [of h q content w] obtain r c
    where "writeText h q content w = (r, w @ [Vault c])" by blast
  moreover have "\<forall>req. Http req \<notin> set [Vault c]" by simp
  ultimately show ?thesis by blast
qed

lemma writeFileContent_trace:
  "\<exists>r evs. writeFileContent h p content w = (r, w @ evs) \<and> (\<forall>req. Http req \<notin> set evs)"
proof (cases "hasBinaryMarkers content")
  case False
  show ?thesis
    unfolding writeFileContent_cases if_not_P [OF False]
    by (rule await_trace [OF ensureFolder_trace writeText_trace])
next
  case True
  show ?thesis
  proof (cases "atob (slice content 8 (- 1))")
    case (Inl e)
    then have "writeFileContent h p content w = (Inl e, w @ [])"
      using True by (simp add: writeFileContent_cases)
    then show ?thesis by force
  next
    case (Inr binary)
    show ?thesis
      unfolding writeFileContent_cases if_P [OF True] Inr sum.case
      by (rule await_trace [OF ensureFolder_trace writeBinary_trace])
  qed
qed

lemma pullFiles_downloads:
  "\<exists>r evs. pullFiles h s (Some a) remoteFiles n w = (r, w @ evs)
     \<and> (\<forall>encoded. Http (contentsLookup a encoded) \<in> set evs \<longrightarrow>
            (\<exists>p. encodeURIComponent p = Inr encoded \<and> \<not> excludedPath h s p))"
proof (induction remoteFiles arbitrary: n w)
  case Nil
  have "pullFiles h s (Some a) [] n w = (Inr n, w @ [])" by simp
  then show ?case by force
next
  case (Cons x remoteFiles)
  show ?case
  proof (cases "excludedPath h s (gh_path x)")
    case True
    then have "pullFiles h s (Some a) (x # remoteFiles) n w = pullFiles h s (Some a) remoteFiles n w"
      by (simp add: excludedPath_def)
    with Cons.IH [of n w] show ?thesis by simp
  next
    case False
    let ?l = "lookups a (gh_path x)"
    let ?w1 = "w @ ?l"
    from api_getFileContent_trace obtain c where
      c: "api_getFileContent h a (gh_path x) w = (Inr c, ?w1)" by blast
    have step: "pullFiles h s (Some a) (x # remoteFiles) n w =
        (case c of
           None \<Rightarrow> pullFiles h s (Some a) remoteFiles n ?w1
         | Some content \<Rightarrow>
             await (writeFileContent h (gh_path x) content)
               (\<lambda>_. pullFiles h s (Some a) remoteFiles (n + 1)) ?w1)"
      using False c by (cases c) (simp_all add: excludedPath_def await_apply)
    show ?thesis
    proof (cases c)
      case None
      from Cons.IH [of n ?w1] obtain r evs where
        i: "pullFiles h s (Some a) remoteFiles n ?w1 = (r, ?w1 @ evs)"
          "\<forall>encoded. Http (contentsLookup a encoded) \<in> set evs \<longrightarrow>
             (\<exists>p. encodeURIComponent p = Inr encoded \<and> \<not> excludedPath h s p)" by blast
      have "pullFiles h s (Some a) (x # remoteFiles) n w = (r, w @ (?l @ evs))"
        using step None i(1) by simp
      moreover have "\<forall>encoded. Http (contentsLookup a encoded) \<in> set (?l @ evs) \<longrightarrow>
             (\<exists>p. encodeURIComponent p = Inr encoded \<and> \<not> excludedPath h s p)"
        using i(2) False by (auto dest: lookups_origin)
      ultimately show ?thesis by blast
    next
      case (Some content)
      from writeFileContent_trace [of h "gh_path x" content ?w1] obtain rw wevs where
        wr: "writeFileContent h (gh_path x) content ?w1 = (rw, ?w1 @ wevs)"
          "\<forall>req. Http req \<notin> set wevs" by blast
      show ?thesis
      proof (cases rw)
        case (Inl e)
        have "pullFiles h s (Some a) (x # remoteFiles) n w = (Inl e, w @ (?l @ wevs))"
          using step Some wr(1) Inl by (simp add: await_apply)
        moreover have "\<forall>encoded. Http (contentsLookup a encoded) \<in> set (?l @ wevs) \<longrightarrow>
             (\<exists>p. encodeURIComponent p = Inr encoded \<and> \<not> excludedPath h s p)"
          using wr(2) False by (auto dest: lookups_origin)
        ultimately show ?thesis by blast
      next
        case (Inr u)
        from Cons.IH [of "n + 1" "?w1 @ wevs"] obtain r evs where
          i: "pullFiles h s (Some a) remoteFiles (n + 1) (?w1 @ wevs) = (r, (?w1 @ wevs) @ evs)"
            "\<forall>encoded. Http (contentsLookup a encoded) \<in> set evs \<longrightarrow>
               (\<exists>p. encodeURIComponent p = Inr encoded \<and> \<not> excludedPath h s p)" by blast
        have "pullFiles h s (Some a) (x # remoteFiles) n w = (r, w @ (?l @ wevs @ evs))"
          using step Some wr(1) Inr i(1) by (simp add: await_apply)
        moreover have "\<forall>encoded. Http (contentsLookup a encoded) \<in> set (?l @ wevs @ evs) \<longrightarrow>
             (\<exists>p. encodeURIComponent p = Inr encoded \<and> \<not> excludedPath h s p)"
          using wr(2) i(2) False by (auto dest: lookups_origin)
        ultimately show ?thesis by blast
      qed
    qed
  qed
qed

lemma syncDownload_folders:
  "\<exists>r evs. syncDownload h s (Some a) vaultPaths paths n w = (r, w @ evs)
     \<and> (\<forall>encoded. Http (contentsLookup a encoded) \<in> set evs \<longrightarrow>
            (\<exists>p. encodeURIComponent p = Inr encoded
                 \<and> \<not> inExcludedFolder h s p \<and> p \<notin> set vaultPaths))"
proof (induction paths arbitrary: n w)
  case Nil
  have "syncDownload h s (Some a) vaultPaths [] n w = (Inr n, w @ [])" by simp
  then show ?case by force
next
  case (Cons q paths)
  show ?case
  proof (cases "inExcludedFolder h s q \<or> q \<in> set vaultPaths")
    case True
    then have "syncDownload h s (Some a) vaultPaths (q # paths) n w
        = syncDownload h s (Some a) vaultPaths paths n w"
      by auto
    with Cons.IH [of n w] show ?thesis by simp
  next
    case False
    let ?l = "lookups a q"
    let ?w1 = "w @ ?l"
    from api_getFileContent_trace obtain c where
      c: "api_getFileContent h a q w = (Inr c, ?w1)" by blast
    have step: "syncDownload h s (Some a) vaultPaths (q # paths) n w =
        (case c of
           None \<Rightarrow> syncDownload h s (Some a) vaultPaths paths n ?w1
         | Some content \<Rightarrow>
             await (writeFileContent h q content)
               (\<lambda>_. syncDownload h s (Some a) vaultPaths paths (n + 1)) ?w1)"
      using False c by (cases c) (simp_all add: await_apply)
    show ?thesis
    proof (cases c)
      case None
      from Cons.IH [of n ?w1] obtain r evs where
        i: "syncDownload h s (Some a) vaultPaths paths n ?w1 = (r, ?w1 @ evs)"
          "\<forall>encoded. Http (contentsLookup a encoded) \<in> set evs \<longrightarrow>
             (\<exists>p. encodeURIComponent p = Inr encoded
                  \<and> \<not> inExcludedFolder h s p \<and> p \<notin> set vaultPaths)" by blast
      have "syncDownload h s (Some a) vaultPaths (q # paths) n w = (r, w @ (?l @ evs))"
        using step None i(1) by simp
      moreover have "\<forall>encoded. Http (contentsLookup a encoded) \<in> set (?l @ evs) \<longrightarrow>
             (\<exists>p. encodeURIComponent p = Inr encoded
                  \<and> \<not> inExcludedFolder h s p \<and> p \<notin> set vaultPaths)"
        using i(2) False by (auto dest: lookups_origin)
      ultimately show ?thesis by blast
    next
      case (Some content)
      from writeFileContent_trace [of h q content ?w1] obtain rw wevs where
        wr: "writeFileContent h q content ?w1 = (rw, ?w1 @ wevs)"
          "\<forall>req. Http req \<notin> set wevs" by blast
      show ?thesis
      proof (cases rw)
        case (Inl e)
        have "syncDownload h s (Some a) vaultPaths (q # paths) n w = (Inl e, w @ (?l @ wevs))"
          using step Some wr(1) Inl by (simp add: await_apply)
        moreover have "\<forall>encoded. Http (contentsLookup a encoded) \<in> set (?l @ wevs) \<longrightarrow>
             (\<exists>p. encodeURIComponent p = Inr encoded
                  \<and> \<not> inExcludedFolder h s p \<and> p \<notin> set vaultPaths)"
          using wr(2) False by (auto dest: lookups_origin)
        ultimately show ?thesis by blast
      next
        case (Inr u)
        from Cons.IH [of "n + 1" "?w1 @ wevs"] obtain r evs where
          i: "syncDownload h s (Some a) vaultPaths paths (n + 1) (?w1 @ wevs) = (r, (?w1 @ wevs) @ evs)"
            "\<forall>encoded. Http (contentsLookup a encoded) \<in> set evs \<longrightarrow>
               (\<exists>p. encodeURIComponent p = Inr encoded
                    \<and> \<not> inExcludedFolder h s p \<and> p \<notin> set vaultPaths)" by blast
        have "syncDownload h s (Some a) vaultPaths (q # paths) n w = (r, w @ (?l @ wevs @ evs))"
          using step Some wr(1) Inr i(1) by (simp add: await_apply)
        moreover have "\<forall>encoded. Http (contentsLookup a encoded) \<in> set (?l @ wevs @ evs) \<longrightarrow>
             (\<exists>p. encodeURIComponent p = Inr encoded
                  \<and> \<not> inExcludedFolder h s p \<and> p \<notin> set vaultPaths)"
          using wr(2) i(2) False by (auto dest: lookups_origin)
        ultimately show ?thesis by blast
      qed
    qed
  qed
qed

end
